theory Spec2Isabelle
  imports Complex_Main "HOL-Library.Char_ord"
begin

section \<open>Code points, Python values, exceptions and dictionaries\<close>

text \<open>
  The program is \<^verbatim>\<open>parse_fedex_invoice.py\<close> (the field-recovery engine) together with the
  reference lookup of \<^verbatim>\<open>app.py\<close>. A Python \<^verbatim>\<open>str\<close> is a sequence of code points. The
  model has the code points U+0000..U+00FF (\<open>Ch c\<close>, for the \<^typ>\<open>char\<close> of the same number)
  and two more: U+0130, the capital I with a dot above, which is the only code point
  that \<^verbatim>\<open>str.lower\<close> turns into two code points, and U+0307, the combining dot above, which
  is the second of these two. So the model covers the texts made of these code points, and
  in it a position found in \<^verbatim>\<open>s.lower()\<close> need not be the same position of \<^verbatim>\<open>s\<close>.
  \<open>str w\<close> is the Python string of a literal of the program.
  Every operation of the source that can raise is a function into \<open>py_error + 'a\<close>, with
  \<open>Inl\<close> for the exception.
\<close>

datatype pychar = Ch char | U0130 | U0307

type_synonym pystr = "pychar list"

definition str :: "string \<Rightarrow> pystr" where
  "str w = map Ch w"

datatype py_error =
  IndexError | KeyError | ValueError | AttributeError | TypeError | InvalidOperation | Overflow

type_synonym 'a res = "py_error + 'a"

definition res_bind :: "'a res \<Rightarrow> ('a \<Rightarrow> 'b res) \<Rightarrow> 'b res" where
  "res_bind r f = (case r of Inl e \<Rightarrow> Inl e | Inr v \<Rightarrow> f v)"

text \<open>The values stored in a record: \<^verbatim>\<open>None\<close>, a \<^verbatim>\<open>str\<close>, or a nested \<^verbatim>\<open>dict\<close>. A
  \<^verbatim>\<open>dict\<close> is an association list with distinct keys in insertion order.\<close>

datatype pyval = PyNone | Str pystr | Dict "(string \<times> pyval) list"

type_synonym pydict = "(string \<times> pyval) list"

definition dict_get :: "pydict \<Rightarrow> string \<Rightarrow> pyval option" where
  "dict_get d k = map_of d k"

text \<open>\<^verbatim>\<open>d[k] = v\<close>: overwrite in place, or append a new key.\<close>

fun dict_set :: "pydict \<Rightarrow> string \<Rightarrow> pyval \<Rightarrow> pydict" where
  "dict_set [] k v = [(k, v)]"
| "dict_set ((k', v') # d) k v = (if k' = k then (k', v) # d else (k', v') # dict_set d k v)"

text \<open>\<^verbatim>\<open>d[k]\<close> as an expression raises \<^verbatim>\<open>KeyError\<close> on a missing key.\<close>

definition dict_index :: "pydict \<Rightarrow> string \<Rightarrow> pyval res" where
  "dict_index d k = (case dict_get d k of None \<Rightarrow> Inl KeyError | Some v \<Rightarrow> Inr v)"

text \<open>Truth value of a Python object, as \<^verbatim>\<open>if x:\<close> tests it.\<close>

fun truthy :: "pyval \<Rightarrow> bool" where
  "truthy PyNone = False"
| "truthy (Str s) = (s \<noteq> [])"
| "truthy (Dict d) = (d \<noteq> [])"

text \<open>A value of type \<^verbatim>\<open>str | None\<close> is a \<^typ>\<open>pystr option\<close>.\<close>

definition truthy_opt :: "pystr option \<Rightarrow> bool" where
  "truthy_opt v = (case v of None \<Rightarrow> False | Some s \<Rightarrow> s \<noteq> [])"

definition of_opt :: "pystr option \<Rightarrow> pyval" where
  "of_opt v = (case v of None \<Rightarrow> PyNone | Some s \<Rightarrow> Str s)"

text \<open>\<^verbatim>\<open>xs[k]\<close>, \<^verbatim>\<open>xs[-1]\<close> and \<^verbatim>\<open>min(xs)\<close> with their exceptions.\<close>

definition py_index :: "'a list \<Rightarrow> nat \<Rightarrow> 'a res" where
  "py_index xs k = (if k < length xs then Inr (xs ! k) else Inl IndexError)"

definition py_last :: "'a list \<Rightarrow> 'a res" where
  "py_last xs = (case rev xs of [] \<Rightarrow> Inl IndexError | x # _ \<Rightarrow> Inr x)"

fun py_min :: "nat list \<Rightarrow> nat res" where
  "py_min [] = Inl ValueError"
| "py_min (x # xs) = Inr (fold min xs x)"

section \<open>Strings\<close>

text \<open>\<^verbatim>\<open>str.lower\<close>: on U+0000..U+00FF it maps A-Z and the Latin-1 capitals (U+00C0..U+00DE
  without U+00D7) to the small letter 0x20 above and keeps every other character (on the
  two ranges bit 5 is clear, and setting it adds 0x20). It turns U+0130 into the two code
  points \<^verbatim>\<open>i\<close> and U+0307, and keeps U+0307: the lowered string can be longer than the
  string.\<close>

fun add_0x20 :: "char \<Rightarrow> char" where
  "add_0x20 (Char b0 b1 b2 b3 b4 b5 b6 b7) = Char b0 b1 b2 b3 b4 True b6 b7"

definition lower_char :: "char \<Rightarrow> char" where
  "lower_char c =
     (if (CHR ''A'' \<le> c \<and> c \<le> CHR ''Z'') \<or>
         (CHR 0xC0 \<le> c \<and> c \<le> CHR 0xDE \<and> c \<noteq> CHR 0xD7)
      then add_0x20 c else c)"

fun lower_cp :: "pychar \<Rightarrow> pystr" where
  "lower_cp (Ch c) = [Ch (lower_char c)]"
| "lower_cp U0130 = [Ch (CHR ''i''), U0307]"
| "lower_cp U0307 = [U0307]"

definition lower :: "pystr \<Rightarrow> pystr" where
  "lower s = concat (map lower_cp s)"

text \<open>The digits of \<^verbatim>\<open>\d\<close> (0 to 9) and the white space of \<^verbatim>\<open>\s\<close> and \<^verbatim>\<open>str.strip\<close>
  (U+0009..U+000D, U+001C..U+0020, U+0085, U+00A0); U+0130 and U+0307 are neither.\<close>

definition is_digit :: "pychar \<Rightarrow> bool" where
  "is_digit x = (case x of Ch c \<Rightarrow> CHR ''0'' \<le> c \<and> c \<le> CHR ''9'' | _ \<Rightarrow> False)"

definition is_space :: "pychar \<Rightarrow> bool" where
  "is_space x =
     (case x of
        Ch c \<Rightarrow> (CHR 0x09 \<le> c \<and> c \<le> CHR 0x0D) \<or> (CHR 0x1C \<le> c \<and> c \<le> CHR 0x20) \<or>
                c = CHR 0x85 \<or> c = CHR 0xA0
      | _ \<Rightarrow> False)"

definition strip :: "pystr \<Rightarrow> pystr" where
  "strip s = rev (dropWhile is_space (rev (dropWhile is_space s)))"

text \<open>\<^verbatim>\<open>x.strip()\<close> where \<^verbatim>\<open>x\<close> may be \<^verbatim>\<open>None\<close> (a group that took no part in the match).\<close>

definition py_strip :: "pystr option \<Rightarrow> pystr res" where
  "py_strip v = (case v of None \<Rightarrow> Inl AttributeError | Some s \<Rightarrow> Inr (strip s))"

text \<open>\<^verbatim>\<open>s[i:j]\<close> for \<open>0 \<le> i\<close>; the source's \<^verbatim>\<open>max(0, a - 3)\<close> is the truncated \<open>a - 3\<close>.\<close>

definition py_slice :: "pystr \<Rightarrow> nat \<Rightarrow> nat \<Rightarrow> pystr" where
  "py_slice s i j = take (j - i) (drop i s)"

text \<open>\<^verbatim>\<open>hay.find(needle, start)\<close>; \<open>None\<close> stands for \<^verbatim>\<open>-1\<close>. \<^verbatim>\<open>needle in hay\<close> is
  \<^verbatim>\<open>hay.find(needle) != -1\<close>.\<close>

fun find_at :: "pystr \<Rightarrow> pystr \<Rightarrow> nat \<Rightarrow> nat option" where
  "find_at needle [] i = (if needle = [] then Some i else None)"
| "find_at needle (c # cs) i =
     (if take (length needle) (c # cs) = needle then Some i else find_at needle cs (Suc i))"

definition str_find :: "pystr \<Rightarrow> pystr \<Rightarrow> nat \<Rightarrow> nat option" where
  "str_find hay needle start =
     (if start \<le> length hay then find_at needle (drop start hay) start else None)"

text \<open>An occurrence of \<open>needle\<close> in \<open>hay\<close> at index \<open>i\<close>, and the first one.\<close>

definition occurs_at :: "pystr \<Rightarrow> pystr \<Rightarrow> nat \<Rightarrow> bool" where
  "occurs_at hay needle i =
     (i + length needle \<le> length hay \<and> take (length needle) (drop i hay) = needle)"

definition first_occurrence :: "pystr \<Rightarrow> pystr \<Rightarrow> nat \<Rightarrow> bool" where
  "first_occurrence hay needle i =
     (occurs_at hay needle i \<and> list_all (\<lambda>k. \<not> occurs_at hay needle k) [0..<i])"

definition str_in :: "pystr \<Rightarrow> pystr \<Rightarrow> bool" where
  "str_in needle hay = (str_find hay needle 0 \<noteq> None)"

text \<open>The word \<open>w\<close> occurs at index \<open>k\<close> of a text without case: the \<open>len(w)\<close> code points
  from \<open>k\<close> on and \<open>w\<close> have the same lower case.\<close>

definition occurs_ci :: "pystr \<Rightarrow> pystr \<Rightarrow> nat \<Rightarrow> bool" where
  "occurs_ci s w k =
     (k + length w \<le> length s \<and> lower (take (length w) (drop k s)) = lower w)"

text \<open>\<^verbatim>\<open>str.splitlines\<close>: the line boundaries of the model's code points, with CR LF as
  one boundary and no empty last line.\<close>

definition is_linebreak :: "pychar \<Rightarrow> bool" where
  "is_linebreak x = (x \<in> set (str [CHR 0x0A, CHR 0x0B, CHR 0x0C, CHR 0x0D, CHR 0x1C, CHR 0x1D,
                                    CHR 0x1E, CHR 0x85]))"

fun splitlines_acc :: "pystr \<Rightarrow> pystr \<Rightarrow> pystr list" where
  "splitlines_acc cur [] = (if cur = [] then [] else [cur])"
| "splitlines_acc cur [c] = (if is_linebreak c then [cur] else [cur @ [c]])"
| "splitlines_acc cur (c # d # ds) =
     (if c = Ch (CHR 0x0D) \<and> d = Ch (CHR 0x0A) then cur # splitlines_acc [] ds
      else if is_linebreak c then cur # splitlines_acc [] (d # ds)
      else splitlines_acc (cur @ [c]) (d # ds))"

definition splitlines :: "pystr \<Rightarrow> pystr list" where
  "splitlines s = splitlines_acc [] s"

section \<open>Regular expressions\<close>

text \<open>
  The patterns of the program use literals, character classes, \<^verbatim>\<open>^\<close> under \<^verbatim>\<open>re.M\<close> (the
  start of the text, or the position after a line feed), greedy and lazy repetition of a
  character class, an optional group and capturing groups.
  \<open>rmatch r txt st\<close> lists, in the order in which the backtracking matcher of \<^verbatim>\<open>re\<close> tries
  them, the states in which \<open>r\<close> can finish when started in \<open>st\<close>; the head of the list is
  the match that \<^verbatim>\<open>re\<close> reports. A state is the position, the text from there on, and the
  text captured by each group so far.
\<close>

datatype regex =
    Eps
  | Cls "pychar \<Rightarrow> bool"
  | Lit bool string
  | Bol
  | Seq regex regex
  | Opt regex
  | Rep nat "pychar \<Rightarrow> bool"
  | RepLazy nat "pychar \<Rightarrow> bool"
  | Grp string regex

type_synonym mstate = "nat \<times> pystr \<times> (string \<rightharpoonup> pystr)"

text \<open>All runs of characters of a class at the head of a text, longest first.\<close>

fun rep_runs :: "(pychar \<Rightarrow> bool) \<Rightarrow> nat \<Rightarrow> pystr \<Rightarrow> (nat \<times> pystr) list" where
  "rep_runs P n [] = [(n, [])]"
| "rep_runs P n (c # cs) =
     (if P c then rep_runs P (Suc n) cs @ [(n, c # cs)] else [(n, c # cs)])"

text \<open>\<open>Lit ci w\<close> is the literal \<open>w\<close> of a pattern, compared without case when \<open>ci\<close>
  (\<^verbatim>\<open>re.I\<close>, for patterns made of ASCII letters, spaces and colons): a code point of the
  text then matches a character of the pattern when their one-character lower cases agree,
  and the one-character lower case of U+0130 is \<^verbatim>\<open>i\<close>. \<open>lit_rest ci w xs\<close> is the text that
  follows \<open>w\<close> at the head of \<open>xs\<close>. \<open>Rep k P\<close> is \<^verbatim>\<open>[P]{k,}\<close>, \<open>RepLazy k P\<close> is
  \<^verbatim>\<open>[P]{k,}?\<close>.\<close>

fun ci_eq :: "pychar \<Rightarrow> char \<Rightarrow> bool" where
  "ci_eq (Ch c) w = (lower_char c = lower_char w)"
| "ci_eq U0130 w = (lower_char w = CHR ''i'')"
| "ci_eq U0307 w = False"

fun lit_rest :: "bool \<Rightarrow> string \<Rightarrow> pystr \<Rightarrow> pystr option" where
  "lit_rest ci [] xs = Some xs"
| "lit_rest ci (w # ws) [] = None"
| "lit_rest ci (w # ws) (x # xs) =
     (if (if ci then ci_eq x w else x = Ch w) then lit_rest ci ws xs else None)"

fun rmatch :: "regex \<Rightarrow> pystr \<Rightarrow> mstate \<Rightarrow> mstate list" where
  "rmatch Eps txt st = [st]"
| "rmatch (Cls P) txt (p, xs, g) =
     (case xs of [] \<Rightarrow> [] | c # cs \<Rightarrow> if P c then [(Suc p, cs, g)] else [])"
| "rmatch (Lit ci w) txt (p, xs, g) =
     (case lit_rest ci w xs of None \<Rightarrow> [] | Some ys \<Rightarrow> [(p + length w, ys, g)])"
| "rmatch Bol txt (p, xs, g) =
     (if p = 0 \<or> (case drop (p - 1) txt of [] \<Rightarrow> False | c # cs \<Rightarrow> c = Ch (CHR 0x0A))
      then [(p, xs, g)] else [])"
| "rmatch (Seq a b) txt st = concat (map (rmatch b txt) (rmatch a txt st))"
| "rmatch (Opt a) txt st = rmatch a txt st @ [st]"
| "rmatch (Rep k P) txt (p, xs, g) =
     map (\<lambda>(n, ys). (p + n, ys, g)) (filter (\<lambda>(n, ys). k \<le> n) (rep_runs P 0 xs))"
| "rmatch (RepLazy k P) txt (p, xs, g) =
     map (\<lambda>(n, ys). (p + n, ys, g)) (filter (\<lambda>(n, ys). k \<le> n) (rev (rep_runs P 0 xs)))"
| "rmatch (Grp name a) txt (p, xs, g) =
     map (\<lambda>(q, ys, h). (q, ys, h(name \<mapsto> take (q - p) xs))) (rmatch a txt (p, xs, g))"

fun seqs :: "regex list \<Rightarrow> regex" where
  "seqs [] = Eps"
| "seqs (r # rs) = Seq r (seqs rs)"

text \<open>A match object: \<^verbatim>\<open>m.start()\<close>, \<^verbatim>\<open>m.end()\<close>, \<^verbatim>\<open>m.group(0)\<close> and the groups.
  \<^verbatim>\<open>m.group(n)\<close> is \<^verbatim>\<open>None\<close> for a group that took no part in the match.\<close>

record rematch =
  m_start :: nat
  m_end :: nat
  m_whole :: pystr
  m_groups :: "string \<rightharpoonup> pystr"

definition mgroup :: "rematch \<Rightarrow> string \<Rightarrow> pystr option" where
  "mgroup m name = m_groups m name"

text \<open>One attempt at position \<open>p\<close>, where the text from \<open>p\<close> on is \<open>xs\<close>.\<close>

definition match_at :: "regex \<Rightarrow> pystr \<Rightarrow> nat \<Rightarrow> pystr \<Rightarrow> rematch option" where
  "match_at r txt p xs =
     (case rmatch r txt (p, xs, Map.empty) of
        [] \<Rightarrow> None
      | (q, ys, g) # _ \<Rightarrow>
          Some \<lparr>m_start = p, m_end = q, m_whole = take (q - p) xs, m_groups = g\<rparr>)"

text \<open>\<^verbatim>\<open>re.match\<close>, \<^verbatim>\<open>pattern.search\<close> and \<^verbatim>\<open>pattern.finditer\<close>. In \<open>finditer_from\<close> the
  number \<open>skip\<close> counts the characters still covered by the previous match, where no attempt
  starts. No pattern of the program matches the empty string.\<close>

definition re_match :: "regex \<Rightarrow> pystr \<Rightarrow> rematch option" where
  "re_match r txt = match_at r txt 0 txt"

fun search_from :: "regex \<Rightarrow> pystr \<Rightarrow> nat \<Rightarrow> pystr \<Rightarrow> rematch option" where
  "search_from r txt p [] = match_at r txt p []"
| "search_from r txt p (c # cs) =
     (case match_at r txt p (c # cs) of
        Some m \<Rightarrow> Some m
      | None \<Rightarrow> search_from r txt (Suc p) cs)"

definition search :: "regex \<Rightarrow> pystr \<Rightarrow> rematch option" where
  "search r txt = search_from r txt 0 txt"

fun finditer_from :: "regex \<Rightarrow> pystr \<Rightarrow> nat \<Rightarrow> nat \<Rightarrow> pystr \<Rightarrow> rematch list" where
  "finditer_from r txt skip p [] =
     (if skip = 0 then (case match_at r txt p [] of None \<Rightarrow> [] | Some m \<Rightarrow> [m]) else [])"
| "finditer_from r txt skip p (c # cs) =
     (if 0 < skip then finditer_from r txt (skip - 1) (Suc p) cs
      else (case match_at r txt p (c # cs) of
              None \<Rightarrow> finditer_from r txt 0 (Suc p) cs
            | Some m \<Rightarrow> m # finditer_from r txt (m_end m - p - 1) (Suc p) cs))"

definition finditer :: "regex \<Rightarrow> pystr \<Rightarrow> rematch list" where
  "finditer r txt = finditer_from r txt 0 0 txt"

text \<open>Three analyses of a pattern, used to reason about its matches: the least length of a
  match, the groups that occur in it, and \<open>sets_group r n k\<close>: every match of \<open>r\<close> binds
  group \<open>n\<close> to a text of at least \<open>k\<close> characters.\<close>

fun min_len :: "regex \<Rightarrow> nat" where
  "min_len Eps = 0"
| "min_len (Cls P) = 1"
| "min_len (Lit ci w) = length w"
| "min_len Bol = 0"
| "min_len (Seq a b) = min_len a + min_len b"
| "min_len (Opt a) = 0"
| "min_len (Rep k P) = k"
| "min_len (RepLazy k P) = k"
| "min_len (Grp name a) = min_len a"

fun all_groups :: "regex \<Rightarrow> string set" where
  "all_groups (Seq a b) = all_groups a \<union> all_groups b"
| "all_groups (Opt a) = all_groups a"
| "all_groups (Grp name a) = insert name (all_groups a)"
| "all_groups r = {}"

fun sets_group :: "regex \<Rightarrow> string \<Rightarrow> nat \<Rightarrow> bool" where
  "sets_group (Grp name a) n k = (if name = n then k \<le> min_len a else sets_group a n k)"
| "sets_group (Seq a b) n k = (sets_group b n k \<or> (n \<notin> all_groups b \<and> sets_group a n k))"
| "sets_group r n k = False"

section \<open>The patterns of the program\<close>

definition digit_or_comma :: "pychar \<Rightarrow> bool" where
  "digit_or_comma c = (is_digit c \<or> c = Ch (CHR '',''))"

definition digit_or_dot :: "pychar \<Rightarrow> bool" where
  "digit_or_dot c = (is_digit c \<or> c = Ch (CHR ''.''))"

definition not_newline :: "pychar \<Rightarrow> bool" where
  "not_newline c = (c \<noteq> Ch (CHR 0x0A))"

definition not_digit_newline :: "pychar \<Rightarrow> bool" where
  "not_digit_newline c = (\<not> is_digit c \<and> c \<noteq> Ch (CHR 0x0A))"

definition not_space :: "pychar \<Rightarrow> bool" where
  "not_space c = (\<not> is_space c)"

definition any_char :: "pychar \<Rightarrow> bool" where
  "any_char c = True"

text \<open>\<^verbatim>\<open>[\d,]+\.\d+\<close>, the amounts of the header, and \<^verbatim>\<open>\d{2}/\d{2}/\d{4}\<close>.\<close>

definition AMOUNT :: regex where
  "AMOUNT = seqs [Rep 1 digit_or_comma, Lit False ''.'', Rep 1 is_digit]"

definition DATE :: regex where
  "DATE = seqs [Cls is_digit, Cls is_digit, Lit False ''/'', Cls is_digit, Cls is_digit,
                Lit False ''/'', Cls is_digit, Cls is_digit, Cls is_digit, Cls is_digit]"

text \<open>\<^verbatim>\<open>HEADER_RE\<close> (compiled with \<^verbatim>\<open>re.M\<close>).\<close>

definition HEADER_RE :: regex where
  "HEADER_RE = seqs [Bol,
     Grp ''shipment'' (Rep 1 is_digit), Rep 1 is_space,
     Grp ''ship_date'' DATE, Rep 1 is_space,
     Grp ''service'' (RepLazy 1 not_newline), Rep 1 is_space,
     Grp ''pieces'' (Rep 1 is_digit), Rep 1 is_space,
     Grp ''weight'' (seqs [Rep 1 is_digit, Opt (Seq (Lit False ''.'') (Rep 1 is_digit)),
                           Rep 0 is_space, Lit False ''kg'']),
     Rep 1 is_space,
     Grp ''reference'' (Rep 1 not_space), Rep 1 is_space,
     Grp ''freight'' AMOUNT, Rep 1 is_space,
     Grp ''other_charges'' AMOUNT, Rep 1 is_space,
     Grp ''total'' AMOUNT]"

text \<open>\<^verbatim>\<open>DIMS_RE\<close>.\<close>

definition DIMS_RE :: regex where
  "DIMS_RE = seqs [Lit False ''Dims:'', Rep 0 is_space,
     Grp ''dims'' (RepLazy 1 not_newline), Rep 1 is_space,
     Lit False ''Billed Weight:'', Rep 0 is_space,
     Grp ''billed_weight'' (seqs [Rep 1 digit_or_dot, Rep 0 is_space, Lit False ''kg''])]"

text \<open>\<^verbatim>\<open>NUM_PATTERN\<close> is \<^verbatim>\<open>-?[\d,]+(?:\.\d+)?\<close>; the six label patterns are compiled with
  \<^verbatim>\<open>re.I\<close> and capture the amount as group 1.\<close>

definition NUM_PATTERN :: regex where
  "NUM_PATTERN = seqs [Opt (Lit False ''-''), Rep 1 digit_or_comma,
                       Opt (Seq (Lit False ''.'') (Rep 1 is_digit))]"

definition TRANSPORT_AFTER_RE :: regex where
  "TRANSPORT_AFTER_RE = seqs [Lit True ''Transportation'', Rep 1 is_space, Lit True ''Charge'',
     Rep 0 not_digit_newline, Grp ''1'' NUM_PATTERN]"

definition DISCOUNT_AFTER_RE :: regex where
  "DISCOUNT_AFTER_RE = seqs [Lit True ''Discount'', Rep 0 not_digit_newline, Grp ''1'' NUM_PATTERN]"

definition FUEL_AFTER_RE :: regex where
  "FUEL_AFTER_RE = seqs [Lit True ''Fuel'', Rep 1 is_space, Lit True ''Surcharge'',
     Rep 0 not_digit_newline, Grp ''1'' NUM_PATTERN]"

definition TRANSPORT_BEFORE_RE :: regex where
  "TRANSPORT_BEFORE_RE = seqs [Grp ''1'' NUM_PATTERN, Rep 0 not_newline,
     Lit True ''Transportation'', Rep 1 is_space, Lit True ''Charge'']"

definition DISCOUNT_BEFORE_RE :: regex where
  "DISCOUNT_BEFORE_RE = seqs [Grp ''1'' NUM_PATTERN, Rep 0 not_newline, Lit True ''Discount'']"

definition FUEL_BEFORE_RE :: regex where
  "FUEL_BEFORE_RE = seqs [Grp ''1'' NUM_PATTERN, Rep 0 not_newline,
     Lit True ''Fuel'', Rep 1 is_space, Lit True ''Surcharge'']"

text \<open>\<^verbatim>\<open>TENDER_SUBTOTAL_RE\<close> (compiled with \<^verbatim>\<open>re.S\<close>: the dot matches every character).\<close>

definition TENDER_SUBTOTAL_RE :: regex where
  "TENDER_SUBTOTAL_RE = seqs [Lit False ''Tendered Date:'', Rep 0 is_space,
     Grp ''tendered_date'' DATE, RepLazy 0 any_char,
     Lit False ''Subtotal INR'', Rep 0 is_space, Grp ''subtotal'' AMOUNT]"

text \<open>\<^verbatim>\<open>NUM_RE\<close> is \<^verbatim>\<open>-?[\d,]+\.\d+\<close>; \<open>LINE_NUM_RE\<close> is the pattern
  \<^verbatim>\<open>\s*(-?[\d,]+\.\d+)\<close> that \<^verbatim>\<open>_line_starts_with_number\<close> builds from it.\<close>

definition NUM_RE :: regex where
  "NUM_RE = seqs [Opt (Lit False ''-''), Rep 1 digit_or_comma, Lit False ''.'', Rep 1 is_digit]"

definition LINE_NUM_RE :: regex where
  "LINE_NUM_RE = Seq (Rep 0 is_space) (Grp ''1'' NUM_RE)"

section \<open>Numeric tokens and label-anchored strategies\<close>

text \<open>The exclusion test that \<^verbatim>\<open>_numbers_in_segment\<close>, \<^verbatim>\<open>_find_amount_for_label\<close> and
  \<^verbatim>\<open>_find_amount_near_label\<close> apply to a match \<open>m\<close> of \<^verbatim>\<open>NUM_RE\<close> in \<open>seg\<close>: a percent
  sign or \<^verbatim>\<open>kg\<close> within three characters before or after the token.\<close>

definition excluded :: "pystr \<Rightarrow> rematch \<Rightarrow> bool" where
  "excluded seg m =
     (let head = py_slice seg (m_start m - 3) (m_start m);
          tail = py_slice seg (m_end m) (m_end m + 3)
      in Ch (CHR ''%'') \<in> set head \<or> Ch (CHR ''%'') \<in> set tail \<or>
         str_in (str ''kg'') (lower head) \<or> str_in (str ''kg'') (lower tail))"

definition number_matches :: "pystr \<Rightarrow> rematch list" where
  "number_matches seg = filter (\<lambda>m. \<not> excluded seg m) (finditer NUM_RE seg)"

definition numbers_in_segment :: "pystr \<Rightarrow> pystr list" where
  "numbers_in_segment seg = map m_whole (number_matches seg)"

text \<open>\<^verbatim>\<open>_amount_from_label_line\<close>: the loop over the lines returns at the first line that
  contains the label. Here and in the two functions below, the test
  \<^verbatim>\<open>label_lower in low\<close> and the call \<^verbatim>\<open>low.find(label_lower)\<close> that follows it are one
  \<open>case\<close> on \<open>str_find\<close>.\<close>

fun amount_from_label_line_loop :: "pystr \<Rightarrow> pystr list \<Rightarrow> pystr option res" where
  "amount_from_label_line_loop label [] = Inr None"
| "amount_from_label_line_loop label (line # lines) =
     (case str_find (lower line) (lower label) 0 of
        None \<Rightarrow> amount_from_label_line_loop label lines
      | Some pos \<Rightarrow>
          (let before_label = take pos line;
               after_label = drop (pos + length label) line;
               nums_before = numbers_in_segment before_label
           in if nums_before \<noteq> [] then res_bind (py_last nums_before) (\<lambda>v. Inr (Some v))
              else (let nums_after = numbers_in_segment after_label
                    in if nums_after \<noteq> [] then res_bind (py_index nums_after 0) (\<lambda>v. Inr (Some v))
                       else Inr None)))"

definition amount_from_label_line :: "pystr \<Rightarrow> pystr \<Rightarrow> pystr option res" where
  "amount_from_label_line charges_text label =
     amount_from_label_line_loop label (splitlines charges_text)"

text \<open>\<^verbatim>\<open>_line_starts_with_number\<close>.\<close>

definition line_starts_with_number :: "pystr \<Rightarrow> pystr option" where
  "line_starts_with_number line =
     (case re_match LINE_NUM_RE line of
        None \<Rightarrow> None
      | Some m \<Rightarrow>
          (let token = mgroup m ''1'';
               tail = py_slice line (m_end m) (m_end m + 3)
           in if Ch (CHR ''%'') \<in> set tail then None else token))"

text \<open>\<^verbatim>\<open>_find_amount_for_label\<close>. The two inner loops run \<open>j\<close> over
  \<^verbatim>\<open>range(1, window + 1)\<close>; \<open>Inr None\<close> from a loop means that it ended without
  returning. The line index \<open>k = idx - j\<close> is non-negative exactly when \<open>j \<le> idx\<close>.\<close>

fun previous_lines_loop :: "pystr list \<Rightarrow> nat \<Rightarrow> nat list \<Rightarrow> pystr option res" where
  "previous_lines_loop lines idx [] = Inr None"
| "previous_lines_loop lines idx (j # js) =
     (if j \<le> idx then
        (case py_index lines (idx - j) of
           Inl e \<Rightarrow> Inl e
         | Inr L \<Rightarrow>
             (if truthy_opt (line_starts_with_number L) then Inr (line_starts_with_number L)
              else previous_lines_loop lines idx js))
      else previous_lines_loop lines idx js)"

fun next_lines_loop :: "pystr list \<Rightarrow> nat \<Rightarrow> nat list \<Rightarrow> pystr option res" where
  "next_lines_loop lines idx [] = Inr None"
| "next_lines_loop lines idx (j # js) =
     (if idx + j < length lines then
        (case py_index lines (idx + j) of
           Inl e \<Rightarrow> Inl e
         | Inr L \<Rightarrow>
             (if truthy_opt (line_starts_with_number L) then Inr (line_starts_with_number L)
              else next_lines_loop lines idx js))
      else next_lines_loop lines idx js)"

fun find_amount_for_label_loop ::
  "pystr list \<Rightarrow> pystr \<Rightarrow> nat \<Rightarrow> nat \<Rightarrow> pystr list \<Rightarrow> pystr option res" where
  "find_amount_for_label_loop lines label window idx [] = Inr None"
| "find_amount_for_label_loop lines label window idx (line # rest) =
     (case str_find (lower line) (lower label) 0 of
        None \<Rightarrow> find_amount_for_label_loop lines label window (Suc idx) rest
      | Some label_pos \<Rightarrow>
          (let candidates_same_line =
                 map (\<lambda>m. (m_start m, m_whole m))
                   (filter (\<lambda>m. m_start m < label_pos \<and> \<not> excluded line m)
                      (finditer NUM_RE line))
           in if candidates_same_line \<noteq> [] then
                res_bind (py_last (sort_key fst candidates_same_line)) (\<lambda>p. Inr (Some (snd p)))
              else
                (case previous_lines_loop lines idx [1..<Suc window] of
                   Inl e \<Rightarrow> Inl e
                 | Inr (Some tok) \<Rightarrow> Inr (Some tok)
                 | Inr None \<Rightarrow> next_lines_loop lines idx [1..<Suc window])))"

definition find_amount_for_label :: "pystr \<Rightarrow> pystr \<Rightarrow> nat \<Rightarrow> pystr option res" where
  "find_amount_for_label block_text label window =
     find_amount_for_label_loop (splitlines block_text) label window 0 (splitlines block_text)"

text \<open>\<^verbatim>\<open>_slice_charges_section\<close>.\<close>

definition end_tokens :: "pystr list" where
  "end_tokens = [str ''signed'', str ''tendered date'', str ''subtotal inr'']"

definition end_candidates :: "pystr \<Rightarrow> nat \<Rightarrow> nat list" where
  "end_candidates low start_idx =
     concat (map (\<lambda>token. case str_find low token (start_idx + 7) of
                             None \<Rightarrow> [] | Some pos \<Rightarrow> [pos])
               end_tokens)"

text \<open>An end marker occurs at index \<open>k\<close> of a lowered text: the three markers, written out
  in small letters.\<close>

definition marker_at :: "pystr \<Rightarrow> nat \<Rightarrow> bool" where
  "marker_at low k =
     (occurs_at low (str ''signed'') k \<or> occurs_at low (str ''tendered date'') k \<or>
      occurs_at low (str ''subtotal inr'') k)"

text \<open>One of the end markers of the specification occurs at index \<open>k\<close> of a block,
  without case.\<close>

definition ci_marker_at :: "pystr \<Rightarrow> nat \<Rightarrow> bool" where
  "ci_marker_at b k =
     (occurs_ci b (str ''Signed'') k \<or> occurs_ci b (str ''Tendered Date'') k \<or>
      occurs_ci b (str ''Subtotal INR'') k)"

definition slice_charges_section :: "pystr \<Rightarrow> pystr res" where
  "slice_charges_section block_text =
     (let low = lower block_text in
      case str_find low (str ''charges'') 0 of
        None \<Rightarrow> Inr block_text
      | Some start_idx \<Rightarrow>
          (let cands = end_candidates low start_idx in
           if cands \<noteq> [] then
             res_bind (py_min cands) (\<lambda>end_idx.
               if start_idx < end_idx then Inr (py_slice block_text start_idx end_idx)
               else Inr (drop start_idx block_text))
           else Inr (drop start_idx block_text)))"

section \<open>Decimal numbers and the windowed strategy\<close>

text \<open>
  A finite \<^verbatim>\<open>decimal.Decimal\<close> is a sign, a coefficient (a non-negative integer) and an
  exponent.
  \<open>parse_decimal\<close> is the constructor on the plain notation (sign, digits, an optional
  point and digits), the only notation a token of \<^verbatim>\<open>NUM_RE\<close> can have once its commas are
  removed; other notations of the constructor are not modelled and give
  \<open>Inl InvalidOperation\<close>.
\<close>

datatype decimal = Decimal bool int int

definition digit_val :: "pychar \<Rightarrow> int" where
  "digit_val c = int (length (takeWhile (\<lambda>d. d \<noteq> c) (str ''0123456789'')))"

definition digits_val :: "pystr \<Rightarrow> int" where
  "digits_val s = foldl (\<lambda>n c. 10 * n + digit_val c) 0 s"

definition parse_decimal :: "pystr \<Rightarrow> decimal res" where
  "parse_decimal s =
     (let neg = (take 1 s = str ''-'');
          body = (if take 1 s = str ''-'' \<or> take 1 s = str ''+'' then drop 1 s else s);
          ip = takeWhile (\<lambda>c. c \<noteq> Ch (CHR ''.'')) body;
          fp = drop 1 (dropWhile (\<lambda>c. c \<noteq> Ch (CHR ''.'')) body)
      in if ip @ fp \<noteq> [] \<and> list_all is_digit (ip @ fp)
         then Inr (Decimal neg (digits_val (ip @ fp)) (- int (length fp)))
         else Inl InvalidOperation)"

text \<open>\<^verbatim>\<open>to_decimal\<close> of \<^verbatim>\<open>_find_amount_near_label\<close>: \<^verbatim>\<open>Decimal(s.replace(',', ''))\<close>.\<close>

definition to_decimal :: "pystr \<Rightarrow> decimal res" where
  "to_decimal s = parse_decimal (filter (\<lambda>c. c \<noteq> Ch (CHR '','')) s)"

text \<open>
  \<^verbatim>\<open>abs(d)\<close> rounds its result in the current context (\<^verbatim>\<open>Decimal._fix\<close>); the program
  never changes the default context: precision 28, \<^verbatim>\<open>ROUND_HALF_EVEN\<close>, exponents between
  -999999 and 999999, \<^verbatim>\<open>Overflow\<close> trapped. \<open>ndigits n\<close> is the length of \<^verbatim>\<open>str(n)\<close>.
\<close>

function ndigits :: "int \<Rightarrow> nat" where
  "ndigits n = (if n < 10 then 1 else Suc (ndigits (n div 10)))"
  by pat_completeness auto
termination
  by (relation "measure nat") auto

declare ndigits.simps [simp del]

definition dec_prec :: int where "dec_prec = 28"
definition dec_Emax :: int where "dec_Emax = 999999"
definition dec_Emin :: int where "dec_Emin = - 999999"
definition dec_Etiny :: int where "dec_Etiny = dec_Emin - dec_prec + 1"
definition dec_Etop :: int where "dec_Etop = dec_Emax - dec_prec + 1"

definition dec_round :: "bool \<Rightarrow> int \<Rightarrow> nat \<Rightarrow> int \<Rightarrow> decimal res" where
  "dec_round sg n digits exp_min =
     (let k = ndigits n - digits;
          q = n div 10 ^ k;
          r = n mod 10 ^ k;
          up = (10 ^ k < 2 * r \<or> (2 * r = 10 ^ k \<and> odd q));
          coeff = (if up then q + 1 else q);
          carry = (up \<and> dec_prec < int (ndigits coeff));
          coeff' = (if carry then coeff div 10 else coeff);
          exp_min' = (if carry then exp_min + 1 else exp_min)
      in if dec_Etop < exp_min' then Inl Overflow else Inr (Decimal sg coeff' exp_min'))"

definition dec_fix :: "decimal \<Rightarrow> decimal res" where
  "dec_fix d =
     (case d of Decimal sg n e \<Rightarrow>
        if n = 0 then Inr (Decimal sg 0 (min (max e dec_Etiny) dec_Emax))
        else if dec_Etop < int (ndigits n) + e - dec_prec then Inl Overflow
        else (let exp_min = max (int (ndigits n) + e - dec_prec) dec_Etiny in
              if e < exp_min then
                (let digits = int (ndigits n) + e - exp_min in
                 if digits < 0 then dec_round sg 1 0 exp_min
                 else dec_round sg n (nat digits) exp_min)
              else Inr (Decimal sg n e)))"

definition dec_abs :: "decimal \<Rightarrow> decimal res" where
  "dec_abs d = (case d of Decimal sg n e \<Rightarrow> dec_fix (Decimal False n e))"

text \<open>The numeric order of two decimals, on a common exponent.\<close>

definition dec_scaled :: "decimal \<Rightarrow> int \<Rightarrow> int" where
  "dec_scaled d m =
     (case d of Decimal sg n e \<Rightarrow> (if sg then - 1 else 1) * n * 10 ^ nat (e - m))"

definition dec_exp :: "decimal \<Rightarrow> int" where
  "dec_exp d = (case d of Decimal sg n e \<Rightarrow> e)"

definition dec_less :: "decimal \<Rightarrow> decimal \<Rightarrow> bool" where
  "dec_less a b =
     (let m = min (dec_exp a) (dec_exp b) in dec_scaled a m < dec_scaled b m)"

text \<open>The number that a decimal, and a token, stands for; and the tokens whose absolute
  value \<^verbatim>\<open>abs\<close> keeps exact: at most 28 significant digits, and an exponent in range.\<close>

definition dec_val :: "decimal \<Rightarrow> real" where
  "dec_val d = (case d of Decimal sg n e \<Rightarrow> (if sg then - 1 else 1) * of_int n * 10 powi e)"

definition token_val :: "pystr \<Rightarrow> real" where
  "token_val s = (case to_decimal s of Inl err \<Rightarrow> 0 | Inr d \<Rightarrow> dec_val d)"

definition short_token :: "pystr \<Rightarrow> bool" where
  "short_token s =
     (case to_decimal s of
        Inl err \<Rightarrow> False
      | Inr d \<Rightarrow> (case d of Decimal sg n e \<Rightarrow>
                   0 \<le> n \<and> int (ndigits n) \<le> dec_prec \<and> dec_Etiny \<le> e \<and> e \<le> 0))"

text \<open>\<^verbatim>\<open>max(candidates, key=lambda s: abs(to_decimal(s)))\<close>: the keys are computed in
  order, and a later candidate replaces the best one only when its key is greater.\<close>

fun keyed :: "pystr list \<Rightarrow> (pystr \<times> decimal) list res" where
  "keyed [] = Inr []"
| "keyed (s # ss) =
     (case res_bind (to_decimal s) dec_abs of
        Inl e \<Rightarrow> Inl e
      | Inr k \<Rightarrow> (case keyed ss of Inl e \<Rightarrow> Inl e | Inr r \<Rightarrow> Inr ((s, k) # r)))"

fun max_loop :: "pystr \<times> decimal \<Rightarrow> (pystr \<times> decimal) list \<Rightarrow> pystr" where
  "max_loop (best, bk) [] = best"
| "max_loop (best, bk) ((s, k) # rest) =
     (if dec_less bk k then max_loop (s, k) rest else max_loop (best, bk) rest)"

definition max_abs :: "pystr list \<Rightarrow> pystr res" where
  "max_abs candidates =
     res_bind (keyed candidates)
       (\<lambda>ks. case ks of [] \<Rightarrow> Inl ValueError | first # rest \<Rightarrow> Inr (max_loop first rest))"

text \<open>\<^verbatim>\<open>_find_amount_near_label\<close>. Its three collecting loops apply to a whole line the
  filter that \<^verbatim>\<open>_numbers_in_segment\<close> applies to a segment.\<close>

fun collect_next :: "pystr list \<Rightarrow> nat \<Rightarrow> nat list \<Rightarrow> pystr list res" where
  "collect_next lines idx [] = Inr []"
| "collect_next lines idx (j # js) =
     (if idx + j < length lines then
        (case py_index lines (idx + j) of
           Inl e \<Rightarrow> Inl e
         | Inr L \<Rightarrow> (case collect_next lines idx js of
                       Inl e \<Rightarrow> Inl e
                     | Inr r \<Rightarrow> Inr (numbers_in_segment L @ r)))
      else collect_next lines idx js)"

fun collect_previous :: "pystr list \<Rightarrow> nat \<Rightarrow> nat list \<Rightarrow> pystr list res" where
  "collect_previous lines idx [] = Inr []"
| "collect_previous lines idx (j # js) =
     (if j \<le> idx then
        (case py_index lines (idx - j) of
           Inl e \<Rightarrow> Inl e
         | Inr L \<Rightarrow> (case collect_previous lines idx js of
                       Inl e \<Rightarrow> Inl e
                     | Inr r \<Rightarrow> Inr (numbers_in_segment L @ r)))
      else collect_previous lines idx js)"

text \<open>The tokens of the window around line \<open>idx\<close>: that line, then the following lines,
  then the preceding lines, nearest first.\<close>

definition window_tokens :: "pystr list \<Rightarrow> nat \<Rightarrow> nat \<Rightarrow> pystr list" where
  "window_tokens lines idx window =
     numbers_in_segment (lines ! idx) @
     concat (map (\<lambda>j. numbers_in_segment (lines ! (idx + j)))
               (filter (\<lambda>j. idx + j < length lines) [1..<Suc window])) @
     concat (map (\<lambda>j. numbers_in_segment (lines ! (idx - j)))
               (filter (\<lambda>j. j \<le> idx) [1..<Suc window]))"

definition near_candidates :: "pystr list \<Rightarrow> pystr \<Rightarrow> nat \<Rightarrow> nat \<Rightarrow> pystr list res" where
  "near_candidates lines line idx window =
     res_bind (collect_next lines idx [1..<Suc window]) (\<lambda>nxt.
     res_bind (collect_previous lines idx [1..<Suc window]) (\<lambda>prv.
       Inr (numbers_in_segment line @ nxt @ prv)))"

fun find_amount_near_label_loop ::
  "pystr list \<Rightarrow> pystr \<Rightarrow> nat \<Rightarrow> nat \<Rightarrow> pystr list \<Rightarrow> pystr option res" where
  "find_amount_near_label_loop lines label window idx [] = Inr None"
| "find_amount_near_label_loop lines label window idx (line # rest) =
     (case str_find (lower line) (lower label) 0 of
        None \<Rightarrow> find_amount_near_label_loop lines label window (Suc idx) rest
      | Some label_pos \<Rightarrow>
          res_bind (near_candidates lines line idx window) (\<lambda>candidates.
            if candidates = [] then Inr None
            else res_bind (max_abs candidates) (\<lambda>best. Inr (Some best))))"

definition find_amount_near_label :: "pystr \<Rightarrow> pystr \<Rightarrow> nat \<Rightarrow> pystr option res" where
  "find_amount_near_label block_text label window =
     find_amount_near_label_loop (splitlines block_text) label window 0 (splitlines block_text)"

section \<open>The field resolver and the record assembler\<close>

text \<open>
  \<^verbatim>\<open>parse_blocks\<close> runs the same statements for each of the three charges (lines 253 to
  265 of the source), with the label and its two patterns: the value of
  \<^verbatim>\<open>_amount_from_label_line\<close>; when that is \<^verbatim>\<open>None\<close> or empty, group 1 of the first of
  the <after> and <before> patterns found by \<^verbatim>\<open>search\<close>; when neither is found,
  \<^verbatim>\<open>_find_amount_for_label\<close> with its default window of 3.
\<close>

definition search_or :: "regex \<Rightarrow> regex \<Rightarrow> pystr \<Rightarrow> rematch option" where
  "search_or after_re before_re txt =
     (case search after_re txt of Some m \<Rightarrow> Some m | None \<Rightarrow> search before_re txt)"

definition resolve_charge :: "pystr \<Rightarrow> pystr \<Rightarrow> regex \<Rightarrow> regex \<Rightarrow> pystr option res" where
  "resolve_charge charges_text label after_re before_re =
     res_bind (amount_from_label_line charges_text label) (\<lambda>val.
       if truthy_opt val then Inr val
       else (case search_or after_re before_re charges_text of
               Some m \<Rightarrow> Inr (mgroup m ''1'')
             | None \<Rightarrow> find_amount_for_label charges_text label 3))"








text \<open>The header fields of a block (the dictionary literal of lines 234 to 244).\<close>

definition header_fields :: "rematch \<Rightarrow> pydict res" where
  "header_fields m =
     res_bind (py_strip (mgroup m ''service'')) (\<lambda>service.
     res_bind (py_strip (mgroup m ''weight'')) (\<lambda>weight.
       Inr [(''shipment'', of_opt (mgroup m ''shipment'')),
            (''ship_date'', of_opt (mgroup m ''ship_date'')),
            (''service'', Str service),
            (''pieces'', of_opt (mgroup m ''pieces'')),
            (''weight'', Str weight),
            (''reference'', of_opt (mgroup m ''reference'')),
            (''freight'', of_opt (mgroup m ''freight'')),
            (''other_charges'', of_opt (mgroup m ''other_charges'')),
            (''total'', of_opt (mgroup m ''total''))]))"

text \<open>Lines 245 to 248.\<close>

definition add_dims :: "pystr \<Rightarrow> pydict \<Rightarrow> pydict res" where
  "add_dims block_text data =
     (case search DIMS_RE block_text of
        None \<Rightarrow> Inr data
      | Some dims \<Rightarrow>
          res_bind (py_strip (mgroup dims ''dims'')) (\<lambda>d.
          res_bind (py_strip (mgroup dims ''billed_weight'')) (\<lambda>b.
            Inr (dict_set (dict_set data ''dims'' (Str d)) ''billed_weight'' (Str b)))))"

text \<open>Lines 267 to 272: the dictionary \<^verbatim>\<open>charges\<close>.\<close>

definition set_if :: "string \<Rightarrow> pystr option \<Rightarrow> pydict \<Rightarrow> pydict" where
  "set_if key val d = (case val of
       None \<Rightarrow> d
     | Some v \<Rightarrow> if v \<noteq> [] then dict_set d key (Str v) else d)"

definition charges_dict :: "pystr option \<Rightarrow> pystr option \<Rightarrow> pystr option \<Rightarrow> pydict" where
  "charges_dict tr_val ds_val fu_val =
     set_if ''fuel_surcharge'' fu_val
       (set_if ''discount'' ds_val (set_if ''transportation_charge'' tr_val []))"

text \<open>Lines 273 to 281: the charges are stored under \<^verbatim>\<open>charges\<close> and copied to the top
  level.\<close>

definition copy_up :: "pydict \<Rightarrow> string \<Rightarrow> pydict \<Rightarrow> pydict res" where
  "copy_up charges key data =
     (if dict_get charges key \<noteq> None
      then res_bind (dict_index charges key) (\<lambda>v. Inr (dict_set data key v))
      else Inr data)"

definition add_charges :: "pydict \<Rightarrow> pydict \<Rightarrow> pydict res" where
  "add_charges charges data =
     (if charges \<noteq> [] then
        res_bind (copy_up charges ''transportation_charge''
                    (dict_set data ''charges'' (Dict charges))) (\<lambda>d1.
        res_bind (copy_up charges ''discount'' d1) (\<lambda>d2.
          copy_up charges ''fuel_surcharge'' d2))
      else Inr data)"

text \<open>Lines 283 to 287: \<^verbatim>\<open>fuel_surcharge\<close> is set to \<^verbatim>\<open>other_charges\<close>. The assignment
  \<^verbatim>\<open>data['charges']['fuel_surcharge'] = ...\<close> raises \<^verbatim>\<open>TypeError\<close> on a value that is not
  a dictionary.\<close>

definition enforce_fuel :: "pydict \<Rightarrow> pydict res" where
  "enforce_fuel data =
     (if (case dict_get data ''other_charges'' of None \<Rightarrow> False | Some v \<Rightarrow> truthy v) then
        res_bind (dict_index data ''other_charges'') (\<lambda>oc.
          (let data1 = dict_set data ''fuel_surcharge'' oc in
           if dict_get data1 ''charges'' \<noteq> None then
             res_bind (dict_index data1 ''other_charges'') (\<lambda>oc'.
             res_bind (dict_index data1 ''charges'') (\<lambda>ch.
               case ch of
                 Dict c \<Rightarrow> Inr (dict_set data1 ''charges'' (Dict (dict_set c ''fuel_surcharge'' oc')))
               | _ \<Rightarrow> Inl TypeError))
           else Inr data1))
      else Inr data)"

text \<open>Lines 288 to 291.\<close>

definition add_tender :: "pystr \<Rightarrow> pydict \<Rightarrow> pydict" where
  "add_tender block_text data =
     (case search TENDER_SUBTOTAL_RE block_text of
        None \<Rightarrow> data
      | Some tender \<Rightarrow>
          dict_set (dict_set data ''tendered_date'' (of_opt (mgroup tender ''tendered_date'')))
            ''subtotal_inr'' (of_opt (mgroup tender ''subtotal'')))"

text \<open>The text of block \<open>i\<close>: from the start of its header match to the start of the next
  one, or to the end of the document (lines 231 to 233).\<close>

definition block_text_of :: "pystr \<Rightarrow> rematch list \<Rightarrow> nat \<Rightarrow> rematch \<Rightarrow> pystr res" where
  "block_text_of pdf_text matches i m =
     res_bind (if i + 1 < length matches
               then res_bind (py_index matches (i + 1)) (\<lambda>m'. Inr (m_start m'))
               else Inr (length pdf_text)) (\<lambda>end.
       Inr (py_slice pdf_text (m_start m) end))"

text \<open>The three charges of a block, resolved on its charges section (lines 250 to 265).\<close>

definition resolve_charges ::
  "pystr \<Rightarrow> (pystr option \<times> pystr option \<times> pystr option) res" where
  "resolve_charges block_text =
     res_bind (slice_charges_section block_text) (\<lambda>charges_text.
     res_bind (resolve_charge charges_text (str ''Transportation Charge'')
                 TRANSPORT_AFTER_RE TRANSPORT_BEFORE_RE) (\<lambda>tr_val.
     res_bind (resolve_charge charges_text (str ''Discount'')
                 DISCOUNT_AFTER_RE DISCOUNT_BEFORE_RE) (\<lambda>ds_val.
     res_bind (resolve_charge charges_text (str ''Fuel Surcharge'')
                 FUEL_AFTER_RE FUEL_BEFORE_RE) (\<lambda>fu_val.
       Inr (tr_val, ds_val, fu_val)))))"

text \<open>One iteration of the loop of \<^verbatim>\<open>parse_blocks\<close>: the record of block \<open>i\<close>.\<close>

definition parse_block :: "pystr \<Rightarrow> rematch list \<Rightarrow> nat \<Rightarrow> rematch \<Rightarrow> pydict res" where
  "parse_block pdf_text matches i m =
     res_bind (block_text_of pdf_text matches i m) (\<lambda>block_text.
     res_bind (header_fields m) (\<lambda>data0.
     res_bind (add_dims block_text data0) (\<lambda>data1.
     res_bind (resolve_charges block_text) (\<lambda>(tr_val, ds_val, fu_val).
     res_bind (add_charges (charges_dict tr_val ds_val fu_val) data1) (\<lambda>data2.
     res_bind (enforce_fuel data2) (\<lambda>data3.
       Inr (add_tender block_text data3)))))))"

fun parse_blocks_loop :: "pystr \<Rightarrow> rematch list \<Rightarrow> nat \<Rightarrow> rematch list \<Rightarrow> pydict list res" where
  "parse_blocks_loop pdf_text matches i [] = Inr []"
| "parse_blocks_loop pdf_text matches i (m # ms) =
     (case parse_block pdf_text matches i m of
        Inl e \<Rightarrow> Inl e
      | Inr data \<Rightarrow>
          (case parse_blocks_loop pdf_text matches (Suc i) ms of
             Inl e \<Rightarrow> Inl e
           | Inr rest \<Rightarrow> Inr (data # rest)))"

text \<open>\<^verbatim>\<open>list(parse_blocks(pdf_text))\<close>: the records in the order in which the generator
  yields them, or the exception that stops it.\<close>

definition parse_blocks :: "pystr \<Rightarrow> pydict list res" where
  "parse_blocks pdf_text =
     parse_blocks_loop pdf_text (finditer HEADER_RE pdf_text) 0 (finditer HEADER_RE pdf_text)"

section \<open>Lookup by reference\<close>

text \<open>What a lookup hands back: one JSON object or a JSON list of records.\<close>

datatype response = RObject pydict | RList "pydict list"

text \<open>\<^verbatim>\<open>fedex_by_reference\<close> of \<^verbatim>\<open>app.py\<close>, on the text read from the file.\<close>

definition fedex_by_reference :: "pystr \<Rightarrow> pystr \<Rightarrow> response res" where
  "fedex_by_reference reference text =
     res_bind (parse_blocks text) (\<lambda>blocks.
       (let match = filter (\<lambda>b. dict_get b ''reference'' = Some (Str reference)) blocks in
        if match = [] then
          Inr (RObject [(''error'', Str (str ''reference not found'')), (''reference'', Str reference)])
        else if length match = 1 then res_bind (py_index match 0) (\<lambda>b. Inr (RObject b))
        else Inr (RList match)))"

text \<open>The \<^verbatim>\<open>--ref\<close> branch of \<^verbatim>\<open>main\<close> (lines 320 to 322): the JSON value printed and
  the exit status.\<close>

definition main_ref :: "pystr \<Rightarrow> pystr \<Rightarrow> (response \<times> int) res" where
  "main_ref text ref =
     res_bind (parse_blocks text) (\<lambda>blocks.
       (let selection = filter (\<lambda>b. dict_get b ''reference'' = Some (Str ref)) blocks in
        if length selection = 1 then res_bind (py_index selection 0) (\<lambda>b. Inr (RObject b, 0))
        else Inr (RList selection, 0)))"

section \<open>Example documents\<close>

definition doc1 :: pystr where
  "doc1 = str (''1001 01/03/2024 Priority 2 5.50 kg REF123 17,853.00 210.00 18,063.00'' @ [CHR 0x0A] @
          ''Dims: 30x20x10 cm Billed Weight: 6.00 kg'' @ [CHR 0x0A] @
          ''Charges'' @ [CHR 0x0A] @ ''17,853.00 ... Transportation Charge'' @ [CHR 0x0A] @
          ''Discount ... -500.00'' @ [CHR 0x0A] @ ''Fuel Surcharge ... 999.00'')"

definition rec1 :: pydict where
  "rec1 = [(''shipment'', Str (str ''1001'')), (''ship_date'', Str (str ''01/03/2024'')),
        (''service'', Str (str ''Priority'')), (''pieces'', Str (str ''2'')),
        (''weight'', Str (str ''5.50 kg'')), (''reference'', Str (str ''REF123'')),
        (''freight'', Str (str ''17,853.00'')),
        (''other_charges'', Str (str ''210.00'')), (''total'', Str (str ''18,063.00'')),
        (''dims'', Str (str ''30x20x10 cm'')),
        (''billed_weight'', Str (str ''6.00 kg'')),
        (''charges'',
         Dict
          [(''transportation_charge'', Str (str ''17,853.00'')),
           (''discount'', Str (str ''-500.00'')),
           (''fuel_surcharge'', Str (str ''210.00''))]),
        (''transportation_charge'', Str (str ''17,853.00'')),
        (''discount'', Str (str ''-500.00'')),
        (''fuel_surcharge'', Str (str ''210.00''))]"

definition doc2 :: pystr where
  "doc2 = str (''7 01/03/2024 Economy 1 2 kg R9 10.00 3.50 13.50'')"

definition rec2 :: pydict where
  "rec2 = [(''shipment'', Str (str ''7'')), (''ship_date'', Str (str ''01/03/2024'')),
        (''service'', Str (str ''Economy'')), (''pieces'', Str (str ''1'')),
        (''weight'', Str (str ''2 kg'')), (''reference'', Str (str ''R9'')),
        (''freight'', Str (str ''10.00'')),
        (''other_charges'', Str (str ''3.50'')), (''total'', Str (str ''13.50'')),
        (''fuel_surcharge'', Str (str ''3.50''))]"

text \<open>The block of the specification's example for the charges section.\<close>

definition block_signed :: pystr where
  "block_signed = str (''xx Charges'' @ [CHR 0x0A] @ ''Transportation Charge 100.00'' @ [CHR 0x0A] @
                  ''Signed: X'')"

text \<open>A charges section whose label line holds no number, and a document with it.\<close>

definition charges3 :: pystr where
  "charges3 = str (''Charges'' @ [CHR 0x0A] @ ''-999.00'' @ [CHR 0x0A] @ ''50.00'' @ [CHR 0x0A] @
              ''Transportation Charge'' @ [CHR 0x0A] @ ''75.00'')"

definition doc3 :: pystr where
  "doc3 = str (''7 01/03/2024 Economy 1 2 kg R9 10.00 3.50 13.50'' @ [CHR 0x0A]) @ charges3"

definition rec3 :: pydict where
  "rec3 = [(''shipment'', Str (str ''7'')), (''ship_date'', Str (str ''01/03/2024'')),
        (''service'', Str (str ''Economy'')), (''pieces'', Str (str ''1'')),
        (''weight'', Str (str ''2 kg'')), (''reference'', Str (str ''R9'')),
        (''freight'', Str (str ''10.00'')),
        (''other_charges'', Str (str ''3.50'')), (''total'', Str (str ''13.50'')),
        (''charges'', Dict [(''transportation_charge'', Str (str ''50.00'')),
                            (''fuel_surcharge'', Str (str ''3.50''))]),
        (''transportation_charge'', Str (str ''50.00'')),
        (''fuel_surcharge'', Str (str ''3.50''))]"

text \<open>A document whose charges section prints a weight and a percentage.\<close>

definition doc4 :: pystr where
  "doc4 = str (''7 01/03/2024 Economy 1 2 kg R9 10.00 3.50 13.50'' @ [CHR 0x0A] @
          ''Charges'' @ [CHR 0x0A] @ ''5.50 kg'' @ [CHR 0x0A] @ ''Transportation Charge'' @
          [CHR 0x0A] @ ''Discount 10.5%'')"

definition rec4 :: pydict where
  "rec4 = [(''shipment'', Str (str ''7'')), (''ship_date'', Str (str ''01/03/2024'')),
        (''service'', Str (str ''Economy'')), (''pieces'', Str (str ''1'')),
        (''weight'', Str (str ''2 kg'')), (''reference'', Str (str ''R9'')),
        (''freight'', Str (str ''10.00'')),
        (''other_charges'', Str (str ''3.50'')), (''total'', Str (str ''13.50'')),
        (''charges'', Dict [(''transportation_charge'', Str (str ''5.50'')),
                            (''discount'', Str (str ''10.5'')),
                            (''fuel_surcharge'', Str (str ''3.50''))]),
        (''transportation_charge'', Str (str ''5.50'')),
        (''discount'', Str (str ''10.5'')),
        (''fuel_surcharge'', Str (str ''3.50''))]"

text \<open>Texts for the windowed strategy: the specification's example, and two candidates of
  30 significant digits that differ in the last one.\<close>

definition near3 :: pystr where
  "near3 = str (''50.00'' @ [CHR 0x0A] @ ''-999.00'' @ [CHR 0x0A] @ ''Transportation Charge'' @
           [CHR 0x0A] @ ''75.00'')"

definition near_long :: pystr where
  "near_long = str (''Discount'' @ [CHR 0x0A] @ ''10000000000000000000000000000.1'' @ [CHR 0x0A] @
               ''10000000000000000000000000000.4'')"





text \<open>Blocks with the end markers in other cases and inside a word.\<close>

definition block_consigned :: pystr where
  "block_consigned = str (''Charges'' @ [CHR 0x0A] @ ''A 1.00'' @ [CHR 0x0A] @
                          ''Consigned 2.00'' @ [CHR 0x0A] @ ''Signed'')"

definition block_tendered :: pystr where
  "block_tendered = str (''x CHARGES'' @ [CHR 0x0A] @ ''1.00 TENDERED DATE: 2'')"

definition block_subtotal :: pystr where
  "block_subtotal = str ''Charges 5.00 Subtotal Inr 7.00 Signed''"

text \<open>Texts with the code point U+0130: a block with it before the word \<^verbatim>\<open>Charges\<close>, a
  block with a place name that starts with it, and two label lines.\<close>

definition block_dotted :: pystr where
  "block_dotted = [U0130] @ str '' Charges 1.00''"

definition block_istanbul :: pystr where
  "block_istanbul = [U0130] @ str (''stanbul'' @ [CHR 0x0A] @ ''Charges'' @ [CHR 0x0A] @
                      ''Transportation Charge 100.00'' @ [CHR 0x0A] @ ''Signed: X'')"

definition line_dotted :: pystr where
  "line_dotted = [U0130] @ str '' Discount1.50''"

definition line_dotted2 :: pystr where
  "line_dotted2 = [U0130, U0130] @ str '' Discount 1234.50''"

section \<open>Properties of the model\<close>

subsection \<open>Results and patterns\<close>

lemma res_bind_Inr [simp]: "res_bind (Inr v) f = f v"
  by (simp add: res_bind_def)

lemma res_bind_Inl [simp]: "res_bind (Inl e) f = Inl e"
  by (simp add: res_bind_def)

lemma res_bind_eq_Inr: "res_bind r f = Inr y \<longleftrightarrow> (\<exists>v. r = Inr v \<and> f v = Inr y)"
  by (cases r) simp_all

lemma lit_rest_span:
  "lit_rest ci w xs = Some ys \<Longrightarrow> length w \<le> length xs \<and> ys = drop (length w) xs"
  by (induction ci w xs rule: lit_rest.induct) (auto split: if_splits)

lemma rep_runs_span:
  "(n, ys) \<in> set (rep_runs P n0 xs) \<Longrightarrow> n0 \<le> n \<and> n - n0 \<le> length xs \<and> ys = drop (n - n0) xs"
proof (induction xs arbitrary: n0)
  case Nil
  then show ?case by simp
next
  case (Cons c cs)
  show ?case
  proof (cases "(n, ys) = (n0, c # cs)")
    case True
    then show ?thesis by simp
  next
    case False
    with Cons.prems have "(n, ys) \<in> set (rep_runs P (Suc n0) cs)"
      by (auto split: if_splits)
    from Cons.IH [OF this] have "Suc n0 \<le> n" "n - Suc n0 \<le> length cs" "ys = drop (n - Suc n0) cs"
      by auto
    moreover from \<open>Suc n0 \<le> n\<close> have "n - n0 = Suc (n - Suc n0)" by arith
    ultimately show ?thesis by simp
  qed
qed

lemma rmatch_span:
  "(q, ys, h) \<in> set (rmatch r txt (p, xs, g)) \<Longrightarrow>
     p + min_len r \<le> q \<and> q \<le> p + length xs \<and> ys = drop (q - p) xs"
proof (induction r arbitrary: p xs g q ys h)
  case Eps
  then show ?case by simp
next
  case (Cls P)
  then show ?case by (auto split: list.splits if_splits)
next
  case (Lit ci w)
  then have "lit_rest ci w xs = Some ys" and "q = p + length w"
    by (auto split: option.splits)
  with lit_rest_span [of ci w xs ys] show ?case by simp
next
  case Bol
  then show ?case by (auto split: if_splits)
next
  case (Seq a b)
  from Seq.prems obtain q1 ys1 h1 where
    a: "(q1, ys1, h1) \<in> set (rmatch a txt (p, xs, g))" and
    b: "(q, ys, h) \<in> set (rmatch b txt (q1, ys1, h1))"
    by auto
  from Seq.IH(1) [OF a] Seq.IH(2) [OF b] show ?case
    by auto
     
next
  case (Opt a)
  show ?case
  proof (cases "(q, ys, h) = (p, xs, g)")
    case True
    then show ?thesis by simp
  next
    case False
    with Opt.prems have "(q, ys, h) \<in> set (rmatch a txt (p, xs, g))" by auto
    from Opt.IH [OF this] show ?thesis by simp
  qed
next
  case (Rep k P)
  then show ?case by (auto dest!: rep_runs_span)
next
  case (RepLazy k P)
  then show ?case by (auto dest!: rep_runs_span)
next
  case (Grp name a)
  then show ?case by auto
qed

lemma rmatch_keeps:
  "(q, ys, h) \<in> set (rmatch r txt (p, xs, g)) \<Longrightarrow> n \<notin> all_groups r \<Longrightarrow> h n = g n"
proof (induction r arbitrary: p xs g q ys h)
  case (Seq a b)
  from Seq.prems obtain q1 ys1 h1 where
    a: "(q1, ys1, h1) \<in> set (rmatch a txt (p, xs, g))" and
    b: "(q, ys, h) \<in> set (rmatch b txt (q1, ys1, h1))"
    by auto
  from Seq.IH(1) [OF a] Seq.IH(2) [OF b] Seq.prems(2) show ?case by simp
next
  case (Grp name a)
  then show ?case by auto
qed (auto split: list.splits if_splits)

lemma rmatch_sets_group:
  "(q, ys, h) \<in> set (rmatch r txt (p, xs, g)) \<Longrightarrow> sets_group r n k \<Longrightarrow>
     \<exists>s. h n = Some s \<and> k \<le> length s"
proof (induction r arbitrary: p xs g q ys h)
  case (Seq a b)
  from Seq.prems obtain q1 ys1 h1 where
    a: "(q1, ys1, h1) \<in> set (rmatch a txt (p, xs, g))" and
    b: "(q, ys, h) \<in> set (rmatch b txt (q1, ys1, h1))"
    by auto
  show ?case
  proof (cases "sets_group b n k")
    case True
    from Seq.IH(2) [OF b True] show ?thesis .
  next
    case False
    with Seq.prems(2) have nb: "n \<notin> all_groups b" and sa: "sets_group a n k" by auto
    from rmatch_keeps [OF b nb] Seq.IH(1) [OF a sa] show ?thesis by simp
  qed
next
  case (Grp name a)
  from Grp.prems(1) obtain h0 where
    a: "(q, ys, h0) \<in> set (rmatch a txt (p, xs, g))" and
    h: "h = h0(name \<mapsto> take (q - p) xs)"
    by auto
  show ?case
  proof (cases "name = n")
    case True
    from rmatch_span [OF a] have "min_len a \<le> q - p" "q - p \<le> length xs" by auto
    with True Grp.prems(2) h show ?thesis by simp
  next
    case False
    with Grp.prems(2) have "sets_group a n k" by simp
    from Grp.IH [OF a this] False h show ?thesis by simp
  qed
qed simp_all

subsection \<open>Match objects, \<open>search\<close> and \<open>finditer\<close>\<close>

lemma match_at_SomeD:
  assumes "match_at r txt p xs = Some m"
  shows "\<exists>q ys. (q, ys, m_groups m) \<in> set (rmatch r txt (p, xs, Map.empty)) \<and>
           m_start m = p \<and> m_end m = q \<and> m_whole m = take (q - p) xs"
proof (cases "rmatch r txt (p, xs, Map.empty)")
  case Nil
  with assms show ?thesis by (simp add: match_at_def)
next
  case (Cons st sts)
  obtain q ys g where st: "st = (q, ys, g)" by (cases st)
  with Cons assms have "m = \<lparr>m_start = p, m_end = q, m_whole = take (q - p) xs, m_groups = g\<rparr>"
    by (simp add: match_at_def)
  with Cons st show ?thesis by auto
qed

lemma match_at_span:
  assumes "match_at r txt p xs = Some m"
  shows "m_start m = p" and "p + min_len r \<le> m_end m" and "m_end m \<le> p + length xs"
    and "m_whole m = take (m_end m - p) xs" and "length (m_whole m) = m_end m - m_start m"
proof -
  from match_at_SomeD [OF assms] obtain q ys where
    in_r: "(q, ys, m_groups m) \<in> set (rmatch r txt (p, xs, Map.empty))" and
    m: "m_start m = p" "m_end m = q" "m_whole m = take (q - p) xs"
    by blast
  from rmatch_span [OF in_r] have "p + min_len r \<le> q" "q \<le> p + length xs" by auto
  with m show "m_start m = p" and "p + min_len r \<le> m_end m" and "m_end m \<le> p + length xs"
    and "m_whole m = take (m_end m - p) xs" and "length (m_whole m) = m_end m - m_start m"
    by auto
qed

lemma match_at_group:
  assumes "match_at r txt p xs = Some m" and "sets_group r n k"
  shows "\<exists>s. mgroup m n = Some s \<and> k \<le> length s"
proof -
  from match_at_SomeD [OF assms(1)] obtain q ys where
    "(q, ys, m_groups m) \<in> set (rmatch r txt (p, xs, Map.empty))"
    by blast
  from rmatch_sets_group [OF this assms(2)] show ?thesis
    by (simp add: mgroup_def)
qed

lemma finditer_from_match:
  "m \<in> set (finditer_from r txt skip p xs) \<Longrightarrow>
     \<exists>p' xs'. match_at r txt p' xs' = Some m \<and> p + skip \<le> p'"
proof (induction xs arbitrary: skip p)
  case Nil
  then have "match_at r txt p [] = Some m \<and> p + skip \<le> p"
    by (cases "skip = 0"; cases "match_at r txt p []"; simp)
  then show ?case by blast
next
  case (Cons c cs)
  show ?case
  proof (cases "0 < skip")
    case True
    with Cons.prems have "m \<in> set (finditer_from r txt (skip - 1) (Suc p) cs)" by simp
    from Cons.IH [OF this] True show ?thesis by auto
  next
    case False
    show ?thesis
    proof (cases "match_at r txt p (c # cs)")
      case None
      with False Cons.prems have "m \<in> set (finditer_from r txt 0 (Suc p) cs)" by simp
      from Cons.IH [OF this] False show ?thesis by auto
    next
      case (Some m0)
      show ?thesis
      proof (cases "m = m0")
        case True
        with Some False show ?thesis by auto
      next
        case ne: False
        with Some False Cons.prems
        have "m \<in> set (finditer_from r txt (m_end m0 - p - 1) (Suc p) cs)" by simp
        from Cons.IH [OF this] False show ?thesis by auto
      qed
    qed
  qed
qed

lemma finditer_match:
  "m \<in> set (finditer r txt) \<Longrightarrow> \<exists>p xs. match_at r txt p xs = Some m"
  unfolding finditer_def by (blast dest: finditer_from_match)

lemma search_from_match:
  "search_from r txt p xs = Some m \<Longrightarrow> \<exists>p' xs'. match_at r txt p' xs' = Some m"
  by (induction xs arbitrary: p) (auto split: option.splits)

lemma search_match:
  "search r txt = Some m \<Longrightarrow> \<exists>p xs. match_at r txt p xs = Some m"
  unfolding search_def by (rule search_from_match)

text \<open>The matches of finditer come in the order of the text and do not overlap.\<close>

lemma finditer_from_ordered:
  "sorted_wrt (\<lambda>a b. m_start a < m_start b \<and> m_end a \<le> m_start b)
     (finditer_from r txt skip p xs)"
proof (induction xs arbitrary: skip p)
  case Nil
  then show ?case by (simp split: option.splits)
next
  case (Cons c cs)
  show ?case
  proof (cases "0 < skip")
    case True
    with Cons.IH show ?thesis by simp
  next
    case False
    show ?thesis
    proof (cases "match_at r txt p (c # cs)")
      case None
      with False Cons.IH show ?thesis by simp
    next
      case (Some m0)
      from match_at_span(1) [OF Some] have s0: "m_start m0 = p" .
      have "m_start m0 < m_start b \<and> m_end m0 \<le> m_start b"
        if "b \<in> set (finditer_from r txt (m_end m0 - p - 1) (Suc p) cs)" for b
      proof -
        from finditer_from_match [OF that] obtain p' xs' where
          b: "match_at r txt p' xs' = Some b" and le: "Suc p + (m_end m0 - p - 1) \<le> p'"
          by blast
        from match_at_span(1) [OF b] le s0 show ?thesis by auto
      qed
      with Some False Cons.IH show ?thesis by simp
    qed
  qed
qed

lemma finditer_ordered:
  "sorted_wrt (\<lambda>a b. m_start a < m_start b \<and> m_end a \<le> m_start b) (finditer r txt)"
  unfolding finditer_def by (rule finditer_from_ordered)

subsection \<open>Dictionaries and lists\<close>

lemma dict_get_set: "dict_get (dict_set d k v) k' = (if k' = k then Some v else dict_get d k')"
  by (induction d) (auto simp: dict_get_def)

lemma py_last_eq: "xs \<noteq> [] \<Longrightarrow> py_last xs = Inr (last xs)"
  by (cases xs rule: rev_cases) (simp_all add: py_last_def)

lemma py_index_eq: "k < length xs \<Longrightarrow> py_index xs k = Inr (xs ! k)"
  by (simp add: py_index_def)

lemma py_min_eq: "xs \<noteq> [] \<Longrightarrow> \<exists>e. py_min xs = Inr e"
  by (cases xs) simp_all

subsection \<open>No step of the engine raises\<close>

lemma slice_charges_section_total: "\<exists>c. slice_charges_section b = Inr c"
proof (cases "str_find (lower b) (str ''charges'') 0")
  case None
  then show ?thesis by (simp add: slice_charges_section_def)
next
  case (Some s)
  show ?thesis
  proof (cases "end_candidates (lower b) s = []")
    case True
    with Some show ?thesis by (simp add: slice_charges_section_def)
  next
    case False
    from py_min_eq [OF False] obtain e where "py_min (end_candidates (lower b) s) = Inr e" ..
    with Some False show ?thesis by (simp add: slice_charges_section_def Let_def)
  qed
qed

lemma amount_from_label_line_loop_total: "\<exists>v. amount_from_label_line_loop label lines = Inr v"
proof (induction lines)
  case Nil
  then show ?case by simp
next
  case (Cons line lines)
  show ?case
  proof (cases "str_find (lower line) (lower label) 0")
    case None
    with Cons.IH show ?thesis by simp
  next
    case (Some pos)
    then show ?thesis
      by (simp add: Let_def py_last_eq py_index_eq)
  qed
qed

lemma amount_from_label_line_total: "\<exists>v. amount_from_label_line t label = Inr v"
  by (simp add: amount_from_label_line_def amount_from_label_line_loop_total)

lemma previous_lines_loop_total:
  "idx < length lines \<Longrightarrow> \<exists>v. previous_lines_loop lines idx js = Inr v"
proof (induction js)
  case Nil
  then show ?case by simp
next
  case (Cons j js)
  then show ?case by (cases "j \<le> idx") (auto simp: py_index_def)
qed

lemma next_lines_loop_total: "\<exists>v. next_lines_loop lines idx js = Inr v"
proof (induction js)
  case Nil
  then show ?case by simp
next
  case (Cons j js)
  then show ?case by (cases "idx + j < length lines") (auto simp: py_index_def)
qed

lemma find_amount_for_label_loop_total:
  "idx + length rest = length lines \<Longrightarrow>
     \<exists>v. find_amount_for_label_loop lines label window idx rest = Inr v"
proof (induction rest arbitrary: idx)
  case Nil
  then show ?case by simp
next
  case (Cons line rest)
  show ?case
  proof (cases "str_find (lower line) (lower label) 0")
    case None
    from Cons.prems have "Suc idx + length rest = length lines" by simp
    from Cons.IH [OF this] None show ?thesis by simp
  next
    case (Some pos)
    from Cons.prems have "idx < length lines" by simp
    then obtain pv where pv: "previous_lines_loop lines idx [1..<Suc window] = Inr pv"
      using previous_lines_loop_total by blast
    obtain nv where nv: "next_lines_loop lines idx [1..<Suc window] = Inr nv"
      using next_lines_loop_total by blast
    have "sort_key fst cs \<noteq> []" if "cs \<noteq> []" for cs :: "(nat \<times> pystr) list"
      using that by (metis length_0_conv length_sort)
    with Some pv nv show ?thesis
      by (cases pv) (simp_all add: Let_def py_last_eq)
  qed
qed

lemma find_amount_for_label_total: "\<exists>v. find_amount_for_label t label window = Inr v"
  by (simp add: find_amount_for_label_def find_amount_for_label_loop_total)

lemma resolve_charge_total: "\<exists>v. resolve_charge t label a b = Inr v"
proof -
  obtain v1 where v1: "amount_from_label_line t label = Inr v1"
    using amount_from_label_line_total by blast
  obtain v3 where v3: "find_amount_for_label t label 3 = Inr v3"
    using find_amount_for_label_total by blast
  from v1 v3 show ?thesis
    by (simp add: resolve_charge_def split: option.splits)
qed

lemma resolve_charges_total: "\<exists>v. resolve_charges b = Inr v"
proof -
  obtain c where c: "slice_charges_section b = Inr c"
    using slice_charges_section_total by blast
  obtain tr where tr: "resolve_charge c (str ''Transportation Charge'') TRANSPORT_AFTER_RE TRANSPORT_BEFORE_RE = Inr tr"
    using resolve_charge_total by blast
  obtain ds where ds: "resolve_charge c (str ''Discount'') DISCOUNT_AFTER_RE DISCOUNT_BEFORE_RE = Inr ds"
    using resolve_charge_total by blast
  obtain fu where fu: "resolve_charge c (str ''Fuel Surcharge'') FUEL_AFTER_RE FUEL_BEFORE_RE = Inr fu"
    using resolve_charge_total by blast
  from c tr ds fu show ?thesis by (simp add: resolve_charges_def)
qed

subsection \<open>The steps of the record assembler\<close>

lemma dict_index_eq: "dict_get d k = Some v \<Longrightarrow> dict_index d k = Inr v"
  by (simp add: dict_index_def)

lemma header_groups:
  assumes "match_at HEADER_RE txt p xs = Some m"
  shows "\<exists>sh sd sv pc w rf fr oc tt.
           mgroup m ''shipment'' = Some sh \<and> mgroup m ''ship_date'' = Some sd \<and>
           mgroup m ''service'' = Some sv \<and> mgroup m ''pieces'' = Some pc \<and>
           mgroup m ''weight'' = Some w \<and> mgroup m ''reference'' = Some rf \<and>
           mgroup m ''freight'' = Some fr \<and> mgroup m ''other_charges'' = Some oc \<and>
           mgroup m ''total'' = Some tt \<and> 3 \<le> length oc \<and> 1 \<le> length sh"
proof -
  have g: "sets_group HEADER_RE ''shipment'' 1" "sets_group HEADER_RE ''ship_date'' 0"
    "sets_group HEADER_RE ''service'' 0" "sets_group HEADER_RE ''pieces'' 0"
    "sets_group HEADER_RE ''weight'' 0" "sets_group HEADER_RE ''reference'' 0"
    "sets_group HEADER_RE ''freight'' 0" "sets_group HEADER_RE ''other_charges'' 3"
    "sets_group HEADER_RE ''total'' 0"
    by (simp_all add: HEADER_RE_def AMOUNT_def DATE_def)
  from g [THEN match_at_group [OF assms]] show ?thesis by blast
qed

lemma header_fields_props:
  assumes "match_at HEADER_RE txt p xs = Some m"
  shows "\<exists>d oc. header_fields m = Inr d \<and>
           mgroup m ''other_charges'' = Some oc \<and> 3 \<le> length oc \<and>
           dict_get d ''other_charges'' = Some (Str oc) \<and>
           dict_get d ''shipment'' = Some (of_opt (mgroup m ''shipment'')) \<and>
           dict_get d ''reference'' = Some (of_opt (mgroup m ''reference'')) \<and>
           dict_get d ''charges'' = None \<and> dict_get d ''fuel_surcharge'' = None \<and>
           dict_get d ''transportation_charge'' = None \<and> dict_get d ''discount'' = None \<and>
           dict_get d ''tendered_date'' = None \<and> dict_get d ''subtotal_inr'' = None"
proof -
  from header_groups [OF assms] obtain sv w oc where
    "mgroup m ''service'' = Some sv" "mgroup m ''weight'' = Some w"
    "mgroup m ''other_charges'' = Some oc" "3 \<le> length oc"
    by blast
  then show ?thesis
    by (simp add: header_fields_def py_strip_def dict_get_def of_opt_def)
qed

lemma add_dims_props:
  "\<exists>d'. add_dims bt d = Inr d' \<and>
     (\<forall>k. k \<noteq> ''dims'' \<longrightarrow> k \<noteq> ''billed_weight'' \<longrightarrow> dict_get d' k = dict_get d k)"
proof (cases "search DIMS_RE bt")
  case None
  then show ?thesis by (simp add: add_dims_def)
next
  case (Some dm)
  from search_match [OF Some] obtain p xs where m: "match_at DIMS_RE bt p xs = Some dm" by blast
  have "sets_group DIMS_RE ''dims'' 0" "sets_group DIMS_RE ''billed_weight'' 0"
    by (simp_all add: DIMS_RE_def)
  from this [THEN match_at_group [OF m]] obtain a b where
    "mgroup dm ''dims'' = Some a" "mgroup dm ''billed_weight'' = Some b" by blast
  with Some show ?thesis
    by (simp add: add_dims_def py_strip_def dict_get_set)
qed

lemma copy_up_props:
  "\<exists>d'. copy_up ch key d = Inr d' \<and>
     (\<forall>k. k \<noteq> key \<longrightarrow> dict_get d' k = dict_get d k) \<and>
     dict_get d' key = (if dict_get ch key = None then dict_get d key else dict_get ch key)"
  by (cases "dict_get ch key") (simp_all add: copy_up_def dict_index_def dict_get_set)

lemma add_charges_props:
  "\<exists>d'. add_charges ch d = Inr d' \<and>
     (\<forall>k. k \<noteq> ''charges'' \<longrightarrow> k \<noteq> ''transportation_charge'' \<longrightarrow> k \<noteq> ''discount'' \<longrightarrow>
          k \<noteq> ''fuel_surcharge'' \<longrightarrow> dict_get d' k = dict_get d k) \<and>
     dict_get d' ''charges'' = (if ch = [] then dict_get d ''charges'' else Some (Dict ch)) \<and>
     (ch \<noteq> [] \<longrightarrow> (\<forall>k \<in> {''transportation_charge'', ''discount''}.
          dict_get d' k = (if dict_get ch k = None then dict_get d k else dict_get ch k)))"
proof (cases "ch = []")
  case True
  then show ?thesis by (simp add: add_charges_def)
next
  case False
  obtain d1 where d1: "copy_up ch ''transportation_charge'' (dict_set d ''charges'' (Dict ch)) = Inr d1"
    and k1: "\<forall>k. k \<noteq> ''transportation_charge'' \<longrightarrow>
               dict_get d1 k = dict_get (dict_set d ''charges'' (Dict ch)) k"
    and v1: "dict_get d1 ''transportation_charge'' =
       (if dict_get ch ''transportation_charge'' = None
        then dict_get (dict_set d ''charges'' (Dict ch)) ''transportation_charge''
        else dict_get ch ''transportation_charge'')"
    using copy_up_props by blast
  obtain d2 where d2: "copy_up ch ''discount'' d1 = Inr d2"
    and k2: "\<forall>k. k \<noteq> ''discount'' \<longrightarrow> dict_get d2 k = dict_get d1 k"
    and v2: "dict_get d2 ''discount'' =
       (if dict_get ch ''discount'' = None then dict_get d1 ''discount'' else dict_get ch ''discount'')"
    using copy_up_props by blast
  obtain d3 where d3: "copy_up ch ''fuel_surcharge'' d2 = Inr d3"
    and k3: "\<forall>k. k \<noteq> ''fuel_surcharge'' \<longrightarrow> dict_get d3 k = dict_get d2 k"
    using copy_up_props by blast
  from False d1 d2 d3 have "add_charges ch d = Inr d3" by (simp add: add_charges_def)
  moreover from k1 k2 k3 have "\<forall>k. k \<noteq> ''charges'' \<longrightarrow> k \<noteq> ''transportation_charge'' \<longrightarrow>
      k \<noteq> ''discount'' \<longrightarrow> k \<noteq> ''fuel_surcharge'' \<longrightarrow> dict_get d3 k = dict_get d k"
    by (simp add: dict_get_set)
  moreover from k1 k2 k3 have "dict_get d3 ''charges'' = Some (Dict ch)"
    by (simp add: dict_get_set)
  moreover from k1 k2 k3 v1 have "dict_get d3 ''transportation_charge'' =
      (if dict_get ch ''transportation_charge'' = None then dict_get d ''transportation_charge''
       else dict_get ch ''transportation_charge'')"
    by (simp add: dict_get_set)
  moreover from k1 k2 k3 v2 have "dict_get d3 ''discount'' =
      (if dict_get ch ''discount'' = None then dict_get d ''discount'' else dict_get ch ''discount'')"
    by (simp add: dict_get_set)
  ultimately show ?thesis using False by simp
qed

lemma enforce_fuel_props:
  assumes oc: "dict_get d ''other_charges'' = Some (Str oc)" "oc \<noteq> []"
    and ch: "dict_get d ''charges'' = None \<or> (\<exists>c. dict_get d ''charges'' = Some (Dict c))"
  shows "\<exists>d'. enforce_fuel d = Inr d' \<and>
     dict_get d' ''fuel_surcharge'' = Some (Str oc) \<and>
     (\<forall>k. k \<noteq> ''fuel_surcharge'' \<longrightarrow> k \<noteq> ''charges'' \<longrightarrow> dict_get d' k = dict_get d k) \<and>
     dict_get d' ''charges'' =
       (case dict_get d ''charges'' of
          Some (Dict c) \<Rightarrow> Some (Dict (dict_set c ''fuel_surcharge'' (Str oc)))
        | _ \<Rightarrow> None)"
  using ch
proof
  assume "dict_get d ''charges'' = None"
  with oc show ?thesis
    by (simp add: enforce_fuel_def dict_index_def dict_get_set)
next
  assume "\<exists>c. dict_get d ''charges'' = Some (Dict c)"
  then obtain c where "dict_get d ''charges'' = Some (Dict c)" ..
  with oc show ?thesis
    by (simp add: enforce_fuel_def dict_index_def dict_get_set)
qed

lemma add_tender_keeps:
  "k \<noteq> ''tendered_date'' \<Longrightarrow> k \<noteq> ''subtotal_inr'' \<Longrightarrow>
     dict_get (add_tender bt d) k = dict_get d k"
  by (simp add: add_tender_def dict_get_set split: option.splits)

lemma block_text_of_total: "\<exists>bt. block_text_of pdf matches i m = Inr bt"
  by (simp add: block_text_of_def py_index_def)

lemma charges_dict_get:
  "dict_get (charges_dict tr ds fu) ''transportation_charge'' =
     (if truthy_opt tr then map_option Str tr else None)"
  "dict_get (charges_dict tr ds fu) ''discount'' =
     (if truthy_opt ds then map_option Str ds else None)"
  "charges_dict tr ds fu = [] \<longleftrightarrow> \<not> truthy_opt tr \<and> \<not> truthy_opt ds \<and> \<not> truthy_opt fu"
proof -
  have ne: "dict_set d k v \<noteq> []" for d k v by (cases d) (auto split: if_splits)
  show "dict_get (charges_dict tr ds fu) ''transportation_charge'' =
     (if truthy_opt tr then map_option Str tr else None)"
    by (auto simp: charges_dict_def set_if_def dict_get_set truthy_opt_def dict_get_def
        split: option.splits)
  show "dict_get (charges_dict tr ds fu) ''discount'' =
     (if truthy_opt ds then map_option Str ds else None)"
    by (auto simp: charges_dict_def set_if_def dict_get_set truthy_opt_def dict_get_def
        split: option.splits)
  show "charges_dict tr ds fu = [] \<longleftrightarrow> \<not> truthy_opt tr \<and> \<not> truthy_opt ds \<and> \<not> truthy_opt fu"
    by (auto simp: charges_dict_def set_if_def truthy_opt_def ne split: option.splits)
qed

text \<open>The record of one block: it is always produced, and these are its fields.\<close>

lemma parse_block_props:
  assumes m: "match_at HEADER_RE t0 p xs = Some m"
  shows "\<exists>bt d oc tr ds fu.
           block_text_of pdf matches i m = Inr bt \<and>
           resolve_charges bt = Inr (tr, ds, fu) \<and>
           parse_block pdf matches i m = Inr (add_tender bt d) \<and>
           dict_get d ''tendered_date'' = None \<and> dict_get d ''subtotal_inr'' = None \<and>
           mgroup m ''other_charges'' = Some oc \<and> oc \<noteq> [] \<and>
           dict_get (add_tender bt d) ''other_charges'' = Some (Str oc) \<and>
           dict_get (add_tender bt d) ''fuel_surcharge'' = Some (Str oc) \<and>
           dict_get (add_tender bt d) ''shipment'' = Some (of_opt (mgroup m ''shipment'')) \<and>
           dict_get (add_tender bt d) ''reference'' = Some (of_opt (mgroup m ''reference'')) \<and>
           dict_get (add_tender bt d) ''transportation_charge'' =
             (if truthy_opt tr then map_option Str tr else None) \<and>
           dict_get (add_tender bt d) ''discount'' =
             (if truthy_opt ds then map_option Str ds else None) \<and>
           (dict_get (add_tender bt d) ''charges'' = None \<or>
            (\<exists>c. dict_get (add_tender bt d) ''charges'' = Some (Dict c) \<and>
                 dict_get c ''fuel_surcharge'' = Some (Str oc)))"
proof -
  obtain bt where bt: "block_text_of pdf matches i m = Inr bt"
    using block_text_of_total by blast
  from header_fields_props [OF m] obtain d0 oc where
    d0: "header_fields m = Inr d0" and oc: "mgroup m ''other_charges'' = Some oc" "3 \<le> length oc"
    and g0: "dict_get d0 ''other_charges'' = Some (Str oc)"
      "dict_get d0 ''shipment'' = Some (of_opt (mgroup m ''shipment''))"
      "dict_get d0 ''reference'' = Some (of_opt (mgroup m ''reference''))"
      "dict_get d0 ''charges'' = None"
      "dict_get d0 ''transportation_charge'' = None" "dict_get d0 ''discount'' = None"
      "dict_get d0 ''tendered_date'' = None" "dict_get d0 ''subtotal_inr'' = None"
    by blast
  obtain d1 where d1: "add_dims bt d0 = Inr d1"
    and k1: "\<forall>k. k \<noteq> ''dims'' \<longrightarrow> k \<noteq> ''billed_weight'' \<longrightarrow> dict_get d1 k = dict_get d0 k"
    using add_dims_props by blast
  obtain tr ds fu where rc: "resolve_charges bt = Inr (tr, ds, fu)"
    using resolve_charges_total [of bt] by (metis prod_cases3)
  let ?ch = "charges_dict tr ds fu"
  obtain d2 where d2: "add_charges ?ch d1 = Inr d2"
    and k2: "\<forall>k. k \<noteq> ''charges'' \<longrightarrow> k \<noteq> ''transportation_charge'' \<longrightarrow> k \<noteq> ''discount'' \<longrightarrow>
          k \<noteq> ''fuel_surcharge'' \<longrightarrow> dict_get d2 k = dict_get d1 k"
    and c2: "dict_get d2 ''charges'' = (if ?ch = [] then dict_get d1 ''charges'' else Some (Dict ?ch))"
    and v2: "?ch \<noteq> [] \<longrightarrow> (\<forall>k \<in> {''transportation_charge'', ''discount''}.
          dict_get d2 k = (if dict_get ?ch k = None then dict_get d1 k else dict_get ?ch k))"
    using add_charges_props by blast
  from oc have ne: "oc \<noteq> []" by auto
  from k1 k2 g0 have o2: "dict_get d2 ''other_charges'' = Some (Str oc)" by simp
  from c2 k1 g0 have ch2: "dict_get d2 ''charges'' = None \<or> (\<exists>c. dict_get d2 ''charges'' = Some (Dict c))"
    by simp
  have empty2: "dict_get d2 k = dict_get d1 k" if "?ch = []" for k
    using that d2 by (simp add: add_charges_def)
  have tr2: "dict_get d2 ''transportation_charge'' = (if truthy_opt tr then map_option Str tr else None)"
  proof (cases "?ch = []")
    case True
    with empty2 k1 g0 charges_dict_get(3) [of tr ds fu] show ?thesis by simp
  next
    case False
    with v2 k1 g0 charges_dict_get(1) [of tr ds fu] show ?thesis by auto
  qed
  have ds2: "dict_get d2 ''discount'' = (if truthy_opt ds then map_option Str ds else None)"
  proof (cases "?ch = []")
    case True
    with empty2 k1 g0 charges_dict_get(3) [of tr ds fu] show ?thesis by simp
  next
    case False
    with v2 k1 g0 charges_dict_get(2) [of tr ds fu] show ?thesis by auto
  qed
  from enforce_fuel_props [OF o2 ne ch2] obtain d3 where d3: "enforce_fuel d2 = Inr d3"
    and f3: "dict_get d3 ''fuel_surcharge'' = Some (Str oc)"
    and k3: "\<forall>k. k \<noteq> ''fuel_surcharge'' \<longrightarrow> k \<noteq> ''charges'' \<longrightarrow> dict_get d3 k = dict_get d2 k"
    and c3: "dict_get d3 ''charges'' =
       (case dict_get d2 ''charges'' of
          Some (Dict c) \<Rightarrow> Some (Dict (dict_set c ''fuel_surcharge'' (Str oc)))
        | _ \<Rightarrow> None)"
    by blast
  let ?d = "add_tender bt d3"
  from bt d0 d1 rc d2 d3 have "parse_block pdf matches i m = Inr ?d"
    by (simp add: parse_block_def)
  moreover from k1 k2 k3 g0 have "dict_get d3 ''tendered_date'' = None" "dict_get d3 ''subtotal_inr'' = None"
    by simp_all
  moreover from f3 have "dict_get ?d ''fuel_surcharge'' = Some (Str oc)"
    by (simp add: add_tender_keeps)
  moreover from k1 k2 k3 g0 have "dict_get ?d ''other_charges'' = Some (Str oc)"
    "dict_get ?d ''shipment'' = Some (of_opt (mgroup m ''shipment''))"
    "dict_get ?d ''reference'' = Some (of_opt (mgroup m ''reference''))"
    by (simp_all add: add_tender_keeps)
  moreover from k3 tr2 ds2 have
    "dict_get ?d ''transportation_charge'' = (if truthy_opt tr then map_option Str tr else None)"
    "dict_get ?d ''discount'' = (if truthy_opt ds then map_option Str ds else None)"
    by (simp_all add: add_tender_keeps)
  moreover from ch2 c3 have "dict_get ?d ''charges'' = None \<or>
      (\<exists>c. dict_get ?d ''charges'' = Some (Dict c) \<and> dict_get c ''fuel_surcharge'' = Some (Str oc))"
    by (auto simp: add_tender_keeps dict_get_set)
  ultimately show ?thesis using bt rc oc(1) ne by blast
qed

lemma parse_blocks_loop_props:
  assumes "\<forall>m \<in> set ms. \<exists>txt p xs. match_at HEADER_RE txt p xs = Some m"
  shows "\<exists>rs. parse_blocks_loop pdf matches i ms = Inr rs \<and> length rs = length ms \<and>
           (\<forall>j < length ms. parse_block pdf matches (i + j) (ms ! j) = Inr (rs ! j))"
  using assms
proof (induction ms arbitrary: i)
  case Nil
  then show ?case by simp
next
  case (Cons m ms)
  from Cons.prems obtain t0 p xs where "match_at HEADER_RE t0 p xs = Some m" by auto
  from parse_block_props [OF this] obtain d where d: "parse_block pdf matches i m = Inr d"
    by blast
  from Cons.prems have "\<forall>m \<in> set ms. \<exists>txt p xs. match_at HEADER_RE txt p xs = Some m" by simp
  from Cons.IH [OF this, of "Suc i"] obtain rs where
    rs: "parse_blocks_loop pdf matches (Suc i) ms = Inr rs" "length rs = length ms"
      "\<forall>j < length ms. parse_block pdf matches (Suc i + j) (ms ! j) = Inr (rs ! j)"
    by blast
  have "parse_block pdf matches (i + j) ((m # ms) ! j) = Inr ((d # rs) ! j)"
    if "j < length (m # ms)" for j
  proof (cases j)
    case 0
    with d show ?thesis by simp
  next
    case (Suc j')
    with that rs(3) show ?thesis by simp
  qed
  with d rs show ?case by simp
qed

lemma parse_blocks_props:
  "\<exists>rs. parse_blocks t = Inr rs \<and> length rs = length (finditer HEADER_RE t) \<and>
     (\<forall>j < length rs.
        parse_block t (finditer HEADER_RE t) j (finditer HEADER_RE t ! j) = Inr (rs ! j))"
proof -
  have "\<forall>m \<in> set (finditer HEADER_RE t). \<exists>txt p xs. match_at HEADER_RE txt p xs = Some m"
    by (blast dest: finditer_match)
  from parse_blocks_loop_props [OF this, of t "finditer HEADER_RE t" 0]
  show ?thesis by (auto simp: parse_blocks_def)
qed

lemma parse_blocks_record:
  assumes "parse_blocks t = Inr rs" and "j < length rs"
  shows "j < length (finditer HEADER_RE t)"
    and "parse_block t (finditer HEADER_RE t) j (finditer HEADER_RE t ! j) = Inr (rs ! j)"
    and "\<exists>p xs. match_at HEADER_RE t p xs = Some (finditer HEADER_RE t ! j)"
proof -
  from parse_blocks_props [of t] assms(1) have
    len: "length rs = length (finditer HEADER_RE t)" and
    pb: "\<forall>j < length rs. parse_block t (finditer HEADER_RE t) j (finditer HEADER_RE t ! j) = Inr (rs ! j)"
    by auto
  from len assms(2) show j: "j < length (finditer HEADER_RE t)" by simp
  from pb assms(2) show "parse_block t (finditer HEADER_RE t) j (finditer HEADER_RE t ! j) = Inr (rs ! j)"
    by simp
  from j have "finditer HEADER_RE t ! j \<in> set (finditer HEADER_RE t)" by simp
  from finditer_match [OF this]
  show "\<exists>p xs. match_at HEADER_RE t p xs = Some (finditer HEADER_RE t ! j)" .
qed

subsection \<open>A label that occurs in no line\<close>





subsection \<open>\<open>str_find\<close> returns the first occurrence\<close>

lemma occurs_at_Cons:
  "occurs_at (c # cs) needle (Suc k) = occurs_at cs needle k"
  by (simp add: occurs_at_def)

lemma occurs_at_0:
  "occurs_at xs needle 0 = (take (length needle) xs = needle)"
proof
  assume "occurs_at xs needle 0"
  then show "take (length needle) xs = needle" by (simp add: occurs_at_def)
next
  assume a: "take (length needle) xs = needle"
  then have "length (take (length needle) xs) = length needle" by simp
  then have "length needle \<le> length xs" by simp
  with a show "occurs_at xs needle 0" by (simp add: occurs_at_def)
qed

lemma occurs_at_bound: "occurs_at hay needle k \<Longrightarrow> k \<le> length hay"
  by (simp add: occurs_at_def)

lemma find_at_Some:
  "find_at needle xs i = Some j \<Longrightarrow>
     i \<le> j \<and> occurs_at xs needle (j - i) \<and> (\<forall>k < j - i. \<not> occurs_at xs needle k)"
proof (induction xs arbitrary: i)
  case Nil
  then show ?case by (simp add: occurs_at_def split: if_splits)
next
  case (Cons c cs)
  show ?case
  proof (cases "take (length needle) (c # cs) = needle")
    case True
    with Cons.prems show ?thesis by (simp add: occurs_at_0)
  next
    case False
    with Cons.prems have "find_at needle cs (Suc i) = Some j" by simp
    from Cons.IH [OF this] have le: "Suc i \<le> j" and occ: "occurs_at cs needle (j - Suc i)"
      and first: "\<forall>k < j - Suc i. \<not> occurs_at cs needle k"
      by auto
    from le have eq: "j - i = Suc (j - Suc i)" by arith
    have "\<not> occurs_at (c # cs) needle k" if "k < j - i" for k
    proof (cases k)
      case 0
      with False show ?thesis by (simp add: occurs_at_0)
    next
      case (Suc k')
      with that eq first show ?thesis by (simp add: occurs_at_Cons)
    qed
    with le occ eq show ?thesis by (simp add: occurs_at_Cons)
  qed
qed

lemma find_at_None:
  "find_at needle xs i = None \<Longrightarrow> \<not> occurs_at xs needle k"
proof (induction xs arbitrary: i k)
  case Nil
  then show ?case by (auto simp: occurs_at_def split: if_splits)
next
  case (Cons c cs)
  from Cons.prems have no: "take (length needle) (c # cs) \<noteq> needle"
    and rest: "find_at needle cs (Suc i) = None"
    by (auto split: if_splits)
  show ?case
  proof (cases k)
    case 0
    with no show ?thesis by (simp add: occurs_at_0)
  next
    case (Suc k')
    with Cons.IH [OF rest] show ?thesis by (simp add: occurs_at_Cons)
  qed
qed

lemma occurs_at_drop:
  "start \<le> length hay \<Longrightarrow> occurs_at (drop start hay) needle k = occurs_at hay needle (start + k)"
  by (auto simp: occurs_at_def add.commute)

lemma str_find_Some:
  assumes "str_find hay needle start = Some j"
  shows "start \<le> j" and "occurs_at hay needle j"
    and "\<And>k. start \<le> k \<Longrightarrow> k < j \<Longrightarrow> \<not> occurs_at hay needle k"
proof -
  from assms have le: "start \<le> length hay" and f: "find_at needle (drop start hay) start = Some j"
    by (auto simp: str_find_def split: if_splits)
  from find_at_Some [OF f] have a: "start \<le> j" and b: "occurs_at (drop start hay) needle (j - start)"
    and c: "\<forall>k < j - start. \<not> occurs_at (drop start hay) needle k"
    by auto
  from a show "start \<le> j" .
  from a b le show "occurs_at hay needle j" by (simp add: occurs_at_drop)
  show "\<not> occurs_at hay needle k" if "start \<le> k" "k < j" for k
  proof -
    from that have "k - start < j - start" by arith
    with c have "\<not> occurs_at (drop start hay) needle (k - start)" by blast
    with le that show ?thesis by (simp add: occurs_at_drop)
  qed
qed

lemma str_find_None:
  assumes "str_find hay needle start = None" and "start \<le> k"
  shows "\<not> occurs_at hay needle k"
proof (cases "start \<le> length hay")
  case True
  with assms(1) have "find_at needle (drop start hay) start = None" by (simp add: str_find_def)
  from find_at_None [OF this, of "k - start"] True assms(2) show ?thesis
    by (simp add: occurs_at_drop)
next
  case False
  with assms(2) show ?thesis by (auto dest: occurs_at_bound)
qed

lemma str_find_first:
  "first_occurrence hay needle s \<Longrightarrow> str_find hay needle 0 = Some s"
proof -
  assume f: "first_occurrence hay needle s"
  then have occ: "occurs_at hay needle s" and no: "\<And>k. k < s \<Longrightarrow> \<not> occurs_at hay needle k"
    by (auto simp: first_occurrence_def list_all_iff)
  show ?thesis
  proof (cases "str_find hay needle 0")
    case None
    from str_find_None [OF this, of s] occ show ?thesis by simp
  next
    case (Some j)
    from str_find_Some [OF Some] occ no have "j = s"
      by (metis le0 linorder_neqE_nat)
    with Some show ?thesis by simp
  qed
qed

lemma str_find_absent:
  "(\<And>k. \<not> occurs_at hay needle k) \<Longrightarrow> str_find hay needle start = None"
  by (cases "str_find hay needle start") (auto dest: str_find_Some(2))

subsection \<open>The end of the charges section\<close>

lemma end_candidates_iff:
  "e \<in> set (end_candidates low s) \<longleftrightarrow> (\<exists>tok \<in> set end_tokens. str_find low tok (s + 7) = Some e)"
proof
  assume "e \<in> set (end_candidates low s)"
  then obtain tok where "tok \<in> set end_tokens"
    "e \<in> set (case str_find low tok (s + 7) of None \<Rightarrow> [] | Some pos \<Rightarrow> [pos])"
    by (auto simp: end_candidates_def)
  then show "\<exists>tok \<in> set end_tokens. str_find low tok (s + 7) = Some e"
    by (cases "str_find low tok (s + 7)") auto
next
  assume "\<exists>tok \<in> set end_tokens. str_find low tok (s + 7) = Some e"
  then obtain tok where "tok \<in> set end_tokens" "str_find low tok (s + 7) = Some e" by blast
  then show "e \<in> set (end_candidates low s)"
    by (force simp: end_candidates_def)
qed

lemma py_min_Min:
  assumes "xs \<noteq> []"
  shows "py_min xs = Inr (Min (set xs))"
proof (cases xs)
  case Nil
  with assms show ?thesis by simp
next
  case (Cons a list)
  have "Min (set (a # list)) = fold min list a" by (rule Min.set_eq_fold)
  with Cons show ?thesis by simp
qed

lemma marker_at_iff: "marker_at low k \<longleftrightarrow> (\<exists>tok \<in> set end_tokens. occurs_at low tok k)"
  by (simp add: marker_at_def end_tokens_def)

lemma end_candidates_least:
  assumes e: "s + 7 \<le> e" "marker_at low e"
    and least: "\<And>k. s + 7 \<le> k \<Longrightarrow> k < e \<Longrightarrow> \<not> marker_at low k"
  shows "end_candidates low s \<noteq> []" and "Min (set (end_candidates low s)) = e"
proof -
  have lower_bound: "e \<le> c" if "c \<in> set (end_candidates low s)" for c
  proof -
    from that obtain tok where tok: "tok \<in> set end_tokens" "str_find low tok (s + 7) = Some c"
      by (auto simp: end_candidates_iff)
    from str_find_Some(1,2) [OF tok(2)] tok(1) have "s + 7 \<le> c" "marker_at low c"
      by (auto simp: marker_at_iff)
    with least [of c] show ?thesis by (meson not_le)
  qed
  from e(2) obtain tok where tok: "tok \<in> set end_tokens" "occurs_at low tok e"
    by (auto simp: marker_at_iff)
  have mem: "e \<in> set (end_candidates low s)"
  proof (cases "str_find low tok (s + 7)")
    case None
    from str_find_None [OF this e(1)] tok(2) show ?thesis by simp
  next
    case (Some j)
    with tok(1) have j: "j \<in> set (end_candidates low s)" by (auto simp: end_candidates_iff)
    from str_find_Some(3) [OF Some, of e] e(1) tok(2) have "e \<le> j \<or> \<not> s + 7 \<le> e \<or> j \<le> e"
      by auto
    with lower_bound [OF j] e(1) str_find_Some(3) [OF Some, of e] tok(2) have "j = e"
      by (meson le_antisym not_le)
    with j show ?thesis by simp
  qed
  then show "end_candidates low s \<noteq> []" by auto
  from mem lower_bound show "Min (set (end_candidates low s)) = e"
    by (auto intro!: Min_eqI)
qed

lemma end_candidates_none:
  assumes "\<And>k. s + 7 \<le> k \<Longrightarrow> \<not> marker_at low k"
  shows "end_candidates low s = []"
proof (rule ccontr)
  assume "end_candidates low s \<noteq> []"
  then obtain c where "c \<in> set (end_candidates low s)" by (cases "end_candidates low s") auto
  then obtain tok where tok: "tok \<in> set end_tokens" "str_find low tok (s + 7) = Some c"
    by (auto simp: end_candidates_iff)
  from str_find_Some(1,2) [OF tok(2)] tok(1) have "s + 7 \<le> c" "marker_at low c"
    by (auto simp: marker_at_iff)
  with assms show False by blast
qed

subsection \<open>The tokens of a segment, in the order of the text\<close>

lemma number_matches_ordered:
  "sorted_wrt (\<lambda>a b. m_start a < m_start b \<and> m_end a \<le> m_start b) (number_matches seg)"
  unfolding number_matches_def by (rule sorted_wrt_filter) (rule finditer_ordered)

lemma sorted_wrt_last:
  "sorted_wrt P xs \<Longrightarrow> x \<in> set xs \<Longrightarrow> x = last xs \<or> P x (last xs)"
proof (induction xs)
  case Nil
  then show ?case by simp
next
  case (Cons y ys)
  show ?case
  proof (cases "ys = []")
    case True
    with Cons.prems show ?thesis by simp
  next
    case False
    then have "last ys \<in> set ys" by simp
    with Cons.prems Cons.IH False show ?thesis by auto
  qed
qed

lemma sorted_wrt_hd:
  "sorted_wrt P xs \<Longrightarrow> x \<in> set xs \<Longrightarrow> x = hd xs \<or> P (hd xs) x"
  by (cases xs) auto

lemma number_matches_last:
  assumes "m \<in> set (number_matches seg)"
  shows "m_start m \<le> m_start (last (number_matches seg))"
  using sorted_wrt_last [OF number_matches_ordered assms] by auto

lemma number_matches_hd:
  assumes "m \<in> set (number_matches seg)"
  shows "m_start (hd (number_matches seg)) \<le> m_start m"
  using sorted_wrt_hd [OF number_matches_ordered assms] by auto

lemma find_label_line:
  "amount_from_label_line_loop label lines =
     (case find (\<lambda>line. str_in (lower label) (lower line)) lines of
        None \<Rightarrow> Inr None
      | Some line \<Rightarrow> amount_from_label_line_loop label [line])"
  by (induction lines) (auto simp: str_in_def split: option.splits)

lemma amount_from_label_line_on_line:
  assumes "first_occurrence (lower line) (lower label) pos"
  shows "amount_from_label_line_loop label [line] =
     (if number_matches (take pos line) \<noteq> []
      then Inr (Some (m_whole (last (number_matches (take pos line)))))
      else if number_matches (drop (pos + length label) line) \<noteq> []
      then Inr (Some (m_whole (hd (number_matches (drop (pos + length label) line)))))
      else Inr None)"
proof -
  from str_find_first [OF assms] have "str_find (lower line) (lower label) 0 = Some pos" .
  then show ?thesis
    by (simp add: Let_def numbers_in_segment_def py_last_eq py_index_eq last_map hd_map hd_conv_nth)
qed

subsection \<open>The order of decimals\<close>

lemma dec_scaled_val:
  assumes "m \<le> dec_exp d"
  shows "real_of_int (dec_scaled d m) * 10 powi m = dec_val d"
proof (cases d)
  case (Decimal sg n e)
  with assms have le: "m \<le> e" by (simp add: dec_exp_def)
  have "(10::real) powi e = 10 powi (int (nat (e - m)) + m)" using le by simp
  also have "\<dots> = 10 powi int (nat (e - m)) * 10 powi m"
    by (rule power_int_add) simp
  also have "\<dots> = 10 ^ nat (e - m) * 10 powi m" by (simp only: power_int_of_nat)
  finally have "(10::real) powi e = 10 ^ nat (e - m) * 10 powi m" .
  with Decimal show ?thesis by (simp add: dec_scaled_def dec_val_def)
qed

lemma dec_less_iff: "dec_less a b \<longleftrightarrow> dec_val a < dec_val b"
proof -
  let ?m = "min (dec_exp a) (dec_exp b)"
  have pos: "(0::real) < 10 powi ?m" by (rule zero_less_power_int) simp
  have "dec_less a b \<longleftrightarrow> real_of_int (dec_scaled a ?m) < real_of_int (dec_scaled b ?m)"
    by (simp add: dec_less_def Let_def)
  also have "\<dots> \<longleftrightarrow> real_of_int (dec_scaled a ?m) * 10 powi ?m
                    < real_of_int (dec_scaled b ?m) * 10 powi ?m"
    using pos by simp
  also have "\<dots> \<longleftrightarrow> dec_val a < dec_val b"
    by (simp add: dec_scaled_val)
  finally show ?thesis .
qed

subsection \<open>\<open>abs\<close> on a token of at most 28 digits\<close>

lemma dec_abs_short:
  assumes "0 \<le> n" "int (ndigits n) \<le> dec_prec" "dec_Etiny \<le> e" "e \<le> 0"
  shows "dec_abs (Decimal sg n e) = Inr (Decimal False n e)"
  using assms
  by (auto simp: dec_abs_def dec_fix_def Let_def dec_prec_def dec_Etiny_def dec_Etop_def
      dec_Emax_def dec_Emin_def)

lemma short_token_key:
  assumes "short_token s"
  shows "\<exists>k. res_bind (to_decimal s) dec_abs = Inr k \<and> dec_val k = \<bar>token_val s\<bar>"
proof -
  from assms obtain sg n e where d: "to_decimal s = Inr (Decimal sg n e)"
    and c: "0 \<le> n" "int (ndigits n) \<le> dec_prec" "dec_Etiny \<le> e" "e \<le> 0"
    by (auto simp: short_token_def split: sum.splits decimal.splits)
  have pos: "(0::real) < 10 powi e" by (rule zero_less_power_int) simp
  from c(1) pos have "dec_val (Decimal False n e) = \<bar>dec_val (Decimal sg n e)\<bar>"
    by (simp add: dec_val_def abs_mult)
  with d dec_abs_short [OF c] show ?thesis by (simp add: token_val_def)
qed

lemma keyed_short:
  "list_all short_token cs \<Longrightarrow>
     \<exists>ks. keyed cs = Inr ks \<and> map fst ks = cs \<and>
          (\<forall>p \<in> set ks. dec_val (snd p) = \<bar>token_val (fst p)\<bar>)"
proof (induction cs)
  case Nil
  then show ?case by simp
next
  case (Cons c cs)
  from Cons.prems short_token_key [of c] obtain k where
    k: "res_bind (to_decimal c) dec_abs = Inr k" "dec_val k = \<bar>token_val c\<bar>"
    by auto
  from Cons obtain ks where "keyed cs = Inr ks" "map fst ks = cs"
    "\<forall>p \<in> set ks. dec_val (snd p) = \<bar>token_val (fst p)\<bar>"
    by auto
  with k show ?case by simp
qed

subsection \<open>The loop of \<open>max\<close>\<close>

lemma max_loop_props:
  "\<exists>p \<in> set ((b, kb) # rest). max_loop (b, kb) rest = fst p \<and>
      (\<forall>q \<in> set ((b, kb) # rest). dec_val (snd q) \<le> dec_val (snd p))"
proof (induction rest arbitrary: b kb)
  case Nil
  then show ?case by simp
next
  case (Cons x rest)
  obtain s k where x: "x = (s, k)" by (cases x)
  show ?case
  proof (cases "dec_less kb k")
    case True
    from Cons.IH [of s k] obtain p where
      p: "p \<in> set ((s, k) # rest)" "max_loop (s, k) rest = fst p"
         "\<forall>q \<in> set ((s, k) # rest). dec_val (snd q) \<le> dec_val (snd p)"
      by blast
    from p(3) True have "dec_val kb \<le> dec_val (snd p)"
      by (force simp: dec_less_iff)
    with p x True show ?thesis by auto
  next
    case False
    from Cons.IH [of b kb] obtain p where
      p: "p \<in> set ((b, kb) # rest)" "max_loop (b, kb) rest = fst p"
         "\<forall>q \<in> set ((b, kb) # rest). dec_val (snd q) \<le> dec_val (snd p)"
      by blast
    from p(3) False have "dec_val k \<le> dec_val (snd p)"
      by (force simp: dec_less_iff)
    with p x False show ?thesis by auto
  qed
qed

lemma max_abs_short:
  assumes "list_all short_token cs" and "cs \<noteq> []"
  shows "\<exists>best \<in> set cs. max_abs cs = Inr best \<and>
           (\<forall>c \<in> set cs. \<bar>token_val c\<bar> \<le> \<bar>token_val best\<bar>)"
proof -
  from keyed_short [OF assms(1)] obtain ks where
    ks: "keyed cs = Inr ks" "map fst ks = cs"
        "\<forall>p \<in> set ks. dec_val (snd p) = \<bar>token_val (fst p)\<bar>"
    by blast
  from ks(2) assms(2) obtain f rest where fr: "ks = f # rest" by (cases ks) auto
  obtain b kb where f: "f = (b, kb)" by (cases f)
  from max_loop_props [of b kb rest]
  have "\<exists>p \<in> set ks. max_loop f rest = fst p \<and> (\<forall>q \<in> set ks. dec_val (snd q) \<le> dec_val (snd p))"
    by (simp only: fr f)
  then obtain p where
    p: "p \<in> set ks" "max_loop f rest = fst p" "\<forall>q \<in> set ks. dec_val (snd q) \<le> dec_val (snd p)"
    by blast
  from p(1) ks(2) have mem: "fst p \<in> set cs" by force
  have "\<bar>token_val c\<bar> \<le> \<bar>token_val (fst p)\<bar>" if "c \<in> set cs" for c
  proof -
    from that ks(2) obtain q where "q \<in> set ks" "fst q = c" by force
    with p(1,3) ks(3) show ?thesis by force
  qed
  with mem ks(1) fr p(2) show ?thesis by (auto simp: max_abs_def)
qed

subsection \<open>The window of the windowed strategy\<close>

lemma collect_next_eq:
  "collect_next lines idx js =
     Inr (concat (map (\<lambda>j. numbers_in_segment (lines ! (idx + j)))
                    (filter (\<lambda>j. idx + j < length lines) js)))"
  by (induction js) (simp_all add: py_index_def)

lemma collect_previous_eq:
  "idx < length lines \<Longrightarrow>
   collect_previous lines idx js =
     Inr (concat (map (\<lambda>j. numbers_in_segment (lines ! (idx - j))) (filter (\<lambda>j. j \<le> idx) js)))"
  by (induction js) (simp_all add: py_index_def less_imp_diff_less)

lemma near_candidates_eq:
  "idx < length lines \<Longrightarrow>
     near_candidates lines (lines ! idx) idx window = Inr (window_tokens lines idx window)"
  by (simp add: near_candidates_def window_tokens_def collect_next_eq collect_previous_eq)

lemma find_amount_near_label_loop_first:
  assumes "k < length rest"
    and "str_in (lower label) (lower (rest ! k))"
    and "\<forall>i<k. \<not> str_in (lower label) (lower (rest ! i))"
  shows "find_amount_near_label_loop lines label window i0 rest =
     res_bind (near_candidates lines (rest ! k) (i0 + k) window) (\<lambda>candidates.
        if candidates = [] then Inr None
        else res_bind (max_abs candidates) (\<lambda>best. Inr (Some best)))"
  using assms
proof (induction rest arbitrary: i0 k)
  case Nil
  then show ?case by simp
next
  case (Cons line rest)
  show ?case
  proof (cases k)
    case 0
    with Cons.prems(2) show ?thesis by (auto simp: str_in_def)
  next
    case (Suc k')
    with Cons.prems have a: "k' < length rest" "str_in (lower label) (lower (rest ! k'))"
      "\<forall>i<k'. \<not> str_in (lower label) (lower (rest ! i))"
      by auto
    from Cons.prems(3) Suc have "\<not> str_in (lower label) (lower line)" by auto
    with Cons.IH [OF a, of "Suc i0"] Suc show ?thesis by (simp add: str_in_def)
  qed
qed

subsection \<open>The strategies of the resolver, in terms of the label line\<close>










subsection \<open>Lowering a text without U+0130\<close>

lemma lower_Nil [simp]: "lower [] = []"
  by (simp add: lower_def)

lemma lower_Cons: "lower (x # xs) = lower_cp x @ lower xs"
  by (simp add: lower_def)

lemma lower_cp_plain: "x \<noteq> U0130 \<Longrightarrow> \<exists>y. lower_cp x = [y]"
  by (cases x) simp_all

lemma lower_length_plain: "U0130 \<notin> set s \<Longrightarrow> length (lower s) = length s"
proof (induction s)
  case Nil
  then show ?case by simp
next
  case (Cons x xs)
  then obtain y where "lower_cp x = [y]" using lower_cp_plain [of x] by auto
  with Cons show ?case by (simp add: lower_Cons)
qed

lemma lower_take_plain: "U0130 \<notin> set s \<Longrightarrow> lower (take n s) = take n (lower s)"
proof (induction s arbitrary: n)
  case Nil
  then show ?case by simp
next
  case (Cons x xs)
  then obtain y where y: "lower_cp x = [y]" using lower_cp_plain [of x] by auto
  show ?case
  proof (cases n)
    case 0
    then show ?thesis by simp
  next
    case (Suc n')
    with Cons y show ?thesis by (simp add: lower_Cons)
  qed
qed

lemma lower_drop_plain: "U0130 \<notin> set s \<Longrightarrow> lower (drop n s) = drop n (lower s)"
proof (induction s arbitrary: n)
  case Nil
  then show ?case by simp
next
  case (Cons x xs)
  then obtain y where y: "lower_cp x = [y]" using lower_cp_plain [of x] by auto
  show ?case
  proof (cases n)
    case 0
    then show ?thesis by simp
  next
    case (Suc n')
    with Cons y show ?thesis by (simp add: lower_Cons)
  qed
qed

text \<open>In a text without U+0130 the positions of the lowered text are the positions of the
  text: a word occurs in the lowered text where it occurs in the text without case.\<close>

lemma occurs_at_lower_plain:
  assumes s: "U0130 \<notin> set s" and w: "U0130 \<notin> set w"
  shows "occurs_at (lower s) (lower w) k \<longleftrightarrow> occurs_ci s w k"
proof -
  from s have d: "U0130 \<notin> set (drop k s)" by (auto dest: in_set_dropD)
  have "take (length w) (drop k (lower s)) = lower (take (length w) (drop k s))"
    by (simp add: lower_take_plain [OF d] lower_drop_plain [OF s])
  then show ?thesis
    by (simp add: occurs_at_def occurs_ci_def lower_length_plain [OF s] lower_length_plain [OF w])
qed

lemma str_plain: "U0130 \<notin> set (str w)"
  by (auto simp: str_def)

subsection \<open>The charges section, in terms of the lowered block\<close>

text \<open>With occurrences looked for in the lowered block: when \<^verbatim>\<open>charges\<close> does not occur,
  the isolator returns the block \<open>b\<close> unchanged; when its first occurrence is at \<open>s\<close> and no
  end marker occurs from \<open>s + 7\<close> on, it returns \<open>b\<close> from \<open>s\<close> to its end; and when \<open>e\<close>
  is the first index from \<open>s + 7\<close> on at which an end marker occurs, it returns \<open>b\<close> from
  \<open>s\<close> up to \<open>e\<close>. The indices are those of the lowered block, and are applied to \<open>b\<close>.\<close>

lemma slice_charges_section_lowered:
  "((\<forall>k. \<not> occurs_at (lower b) (str ''charges'') k) \<longrightarrow> slice_charges_section b = Inr b) \<and>
   (\<forall>s. first_occurrence (lower b) (str ''charges'') s \<longrightarrow>
      ((\<forall>k. s + 7 \<le> k \<longrightarrow> \<not> marker_at (lower b) k) \<longrightarrow>
         slice_charges_section b = Inr (drop s b)) \<and>
      (\<forall>e. s + 7 \<le> e \<and> marker_at (lower b) e \<and>
           (\<forall>k. s + 7 \<le> k \<and> k < e \<longrightarrow> \<not> marker_at (lower b) k) \<longrightarrow>
         slice_charges_section b = Inr (take (e - s) (drop s b))))"
proof (intro conjI allI impI)
  assume "\<forall>k. \<not> occurs_at (lower b) (str ''charges'') k"
  then have "str_find (lower b) (str ''charges'') 0 = None" by (simp add: str_find_absent)
  then show "slice_charges_section b = Inr b" by (simp add: slice_charges_section_def)
next
  fix s
  assume "first_occurrence (lower b) (str ''charges'') s"
  then have s: "str_find (lower b) (str ''charges'') 0 = Some s" by (rule str_find_first)
  assume "\<forall>k. s + 7 \<le> k \<longrightarrow> \<not> marker_at (lower b) k"
  then have "end_candidates (lower b) s = []" by (simp add: end_candidates_none)
  with s show "slice_charges_section b = Inr (drop s b)"
    by (simp add: slice_charges_section_def)
next
  fix s e
  assume "first_occurrence (lower b) (str ''charges'') s"
  then have s: "str_find (lower b) (str ''charges'') 0 = Some s" by (rule str_find_first)
  assume e: "s + 7 \<le> e \<and> marker_at (lower b) e \<and>
    (\<forall>k. s + 7 \<le> k \<and> k < e \<longrightarrow> \<not> marker_at (lower b) k)"
  then have ne: "end_candidates (lower b) s \<noteq> []"
    and mn: "Min (set (end_candidates (lower b) s)) = e"
    using end_candidates_least [of s e "lower b"] by auto
  from py_min_Min [OF ne] mn have "py_min (end_candidates (lower b) s) = Inr e" by simp
  with s ne e show "slice_charges_section b = Inr (take (e - s) (drop s b))"
    by (simp add: slice_charges_section_def py_slice_def)
qed

text \<open>On a block without U+0130 the isolator does what the specification says, with the
  word \<^verbatim>\<open>Charges\<close> and the three end markers found without case, also inside a longer
  word, and the end marker looked for from 7 code points after the start of \<^verbatim>\<open>Charges\<close>.\<close>

lemma lower_words:
  "lower (str ''Charges'') = str ''charges''" "lower (str ''Signed'') = str ''signed''"
  "lower (str ''Tendered Date'') = str ''tendered date''"
  "lower (str ''Subtotal INR'') = str ''subtotal inr''"
  by code_simp+

lemma slice_charges_section_plain:
  assumes b: "U0130 \<notin> set b"
  shows
  "((\<forall>k. \<not> occurs_ci b (str ''Charges'') k) \<longrightarrow> slice_charges_section b = Inr b) \<and>
   (\<forall>s. occurs_ci b (str ''Charges'') s \<and> (\<forall>k<s. \<not> occurs_ci b (str ''Charges'') k) \<longrightarrow>
      ((\<forall>k. s + 7 \<le> k \<longrightarrow> \<not> ci_marker_at b k) \<longrightarrow>
         slice_charges_section b = Inr (drop s b)) \<and>
      (\<forall>e. s + 7 \<le> e \<and> ci_marker_at b e \<and>
           (\<forall>k. s + 7 \<le> k \<and> k < e \<longrightarrow> \<not> ci_marker_at b k) \<longrightarrow>
         slice_charges_section b = Inr (take (e - s) (drop s b))))"
proof -
  have c: "occurs_at (lower b) (str ''charges'') k = occurs_ci b (str ''Charges'') k" for k
    using occurs_at_lower_plain [OF b str_plain, of "''Charges''" k] by (simp add: lower_words)
  have m: "marker_at (lower b) k = ci_marker_at b k" for k
    using occurs_at_lower_plain [OF b str_plain, of "''Signed''" k]
      occurs_at_lower_plain [OF b str_plain, of "''Tendered Date''" k]
      occurs_at_lower_plain [OF b str_plain, of "''Subtotal INR''" k]
    by (simp add: lower_words marker_at_def ci_marker_at_def)
  have f: "first_occurrence (lower b) (str ''charges'') s \<longleftrightarrow>
      occurs_ci b (str ''Charges'') s \<and> (\<forall>k<s. \<not> occurs_ci b (str ''Charges'') k)" for s
    by (auto simp: first_occurrence_def list_all_iff c)
  from slice_charges_section_lowered [of b] show ?thesis
    by (simp only: c m f)
qed

subsection \<open>The same-line strategy, in terms of the lowered line\<close>

text \<open>\<^verbatim>\<open>_amount_from_label_line\<close> looks at the first line whose lowered text contains the
  lowered label, and at the first index \<open>pos\<close> of the lowered label in the lowered line. It
  returns the last token not excluded in the first \<open>pos\<close> code points of the line, which is
  the one with the largest start; when there is none, the first token not excluded after
  the first \<open>pos + len(label)\<close> code points; and \<^verbatim>\<open>None\<close> when there is neither, or when no
  line contains the label.\<close>

lemma amount_from_label_line_lowered:
  "(find (\<lambda>line. str_in (lower label) (lower line)) (splitlines text) = None \<longrightarrow>
      amount_from_label_line text label = Inr None) \<and>
   (\<forall>line pos.
      find (\<lambda>line. str_in (lower label) (lower line)) (splitlines text) = Some line \<longrightarrow>
      first_occurrence (lower line) (lower label) pos \<longrightarrow>
      (number_matches (take pos line) \<noteq> [] \<longrightarrow>
         amount_from_label_line text label =
           Inr (Some (m_whole (last (number_matches (take pos line))))) \<and>
         (\<forall>m \<in> set (number_matches (take pos line)).
            m_start m \<le> m_start (last (number_matches (take pos line))))) \<and>
      (number_matches (take pos line) = [] \<longrightarrow>
       number_matches (drop (pos + length label) line) \<noteq> [] \<longrightarrow>
         amount_from_label_line text label =
           Inr (Some (m_whole (hd (number_matches (drop (pos + length label) line))))) \<and>
         (\<forall>m \<in> set (number_matches (drop (pos + length label) line)).
            m_start (hd (number_matches (drop (pos + length label) line))) \<le> m_start m)) \<and>
      (number_matches (take pos line) = [] \<longrightarrow>
       number_matches (drop (pos + length label) line) = [] \<longrightarrow>
         amount_from_label_line text label = Inr None))"
proof (intro conjI allI impI ballI)
  assume "find (\<lambda>line. str_in (lower label) (lower line)) (splitlines text) = None"
  then show "amount_from_label_line text label = Inr None"
    by (simp add: amount_from_label_line_def find_label_line [of label "splitlines text"])
next
  fix line pos
  assume f: "find (\<lambda>line. str_in (lower label) (lower line)) (splitlines text) = Some line"
    and p: "first_occurrence (lower line) (lower label) pos"
  have eq: "amount_from_label_line text label = amount_from_label_line_loop label [line]"
    using f by (simp add: amount_from_label_line_def find_label_line [of label "splitlines text"])
  note on = amount_from_label_line_on_line [OF p]
  {
    assume "number_matches (take pos line) \<noteq> []"
    with eq on show "amount_from_label_line text label =
        Inr (Some (m_whole (last (number_matches (take pos line)))))"
      by simp
  }
  {
    fix m assume "m \<in> set (number_matches (take pos line))"
    then show "m_start m \<le> m_start (last (number_matches (take pos line)))"
      by (rule number_matches_last)
  }
  {
    assume "number_matches (take pos line) = []"
      "number_matches (drop (pos + length label) line) \<noteq> []"
    with eq on show "amount_from_label_line text label =
        Inr (Some (m_whole (hd (number_matches (drop (pos + length label) line)))))"
      by simp
  }
  {
    fix m assume "m \<in> set (number_matches (drop (pos + length label) line))"
    then show "m_start (hd (number_matches (drop (pos + length label) line))) \<le> m_start m"
      by (rule number_matches_hd)
  }
  {
    assume "number_matches (take pos line) = []"
      "number_matches (drop (pos + length label) line) = []"
    with eq on show "amount_from_label_line text label = Inr None"
      by simp
  }
qed

text \<open>When the label line and the label are without U+0130, \<open>pos\<close> is the first index at
  which the label occurs in the line without case: the strategy returns the last token not
  excluded before the label, else the first token not excluded after it.\<close>

lemma same_line_strategy_plain:
  assumes f: "find (\<lambda>line. str_in (lower label) (lower line)) (splitlines text) = Some line"
    and plain: "U0130 \<notin> set line" "U0130 \<notin> set label"
    and pos: "occurs_ci line label pos" "\<forall>k<pos. \<not> occurs_ci line label k"
  shows "amount_from_label_line text label =
     (if number_matches (take pos line) \<noteq> []
      then Inr (Some (m_whole (last (number_matches (take pos line)))))
      else if number_matches (drop (pos + length label) line) \<noteq> []
      then Inr (Some (m_whole (hd (number_matches (drop (pos + length label) line)))))
      else Inr None)"
proof -
  from pos have "first_occurrence (lower line) (lower label) pos"
    by (simp add: first_occurrence_def list_all_iff occurs_at_lower_plain [OF plain])
  from amount_from_label_line_on_line [OF this] f show ?thesis
    by (simp add: amount_from_label_line_def find_label_line [of label "splitlines text"])
qed

subsection \<open>The examples of the specification\<close>

lemma slice_charges_section_examples:
  "slice_charges_section (str ''no table here'') = Inr (str ''no table here'')"
  "slice_charges_section (str ''a Charges 1.00'') = Inr (str ''Charges 1.00'')"
  "slice_charges_section block_signed =
     Inr (str (''Charges'' @ [CHR 0x0A] @ ''Transportation Charge 100.00'' @ [CHR 0x0A]))"
  "slice_charges_section block_consigned =
     Inr (str (''Charges'' @ [CHR 0x0A] @ ''A 1.00'' @ [CHR 0x0A] @ ''Con''))"
  "slice_charges_section block_tendered = Inr (str (''CHARGES'' @ [CHR 0x0A] @ ''1.00 ''))"
  "slice_charges_section block_subtotal = Inr (str ''Charges 5.00 '')"
  by code_simp+

lemma amount_from_label_line_examples:
  "amount_from_label_line (str ''100.00 200.00 Transportation Charge'')
     (str ''Transportation Charge'') = Inr (Some (str ''200.00''))"
  "amount_from_label_line (str ''10.5% Discount ... -500.00 7.00'') (str ''Discount'')
     = Inr (Some (str ''-500.00''))"
  "amount_from_label_line (str ''Charges'') (str ''Discount'') = Inr None"
  by code_simp+

subsection \<open>The example documents\<close>

lemma parse_blocks_doc1: "parse_blocks doc1 = Inr [rec1]"
  by code_simp

lemma header_matches_doc1:
  "map (\<lambda>m. (m_start m, mgroup m ''shipment'')) (finditer HEADER_RE doc1) = [(0, Some (str ''1001''))]"
  by code_simp

lemma parse_blocks_doc2: "parse_blocks doc2 = Inr [rec2]"
  by code_simp

lemma parse_blocks_doc3: "parse_blocks doc3 = Inr [rec3]"
  by code_simp

lemma parse_blocks_doc4: "parse_blocks doc4 = Inr [rec4]"
  by code_simp


section \<open>The claims of the specification\<close>

subsection \<open>C1: one record per header match\<close>

text \<open>
  Claim C1. For every document the engine returns exactly one record per match of the
  header pattern, in the order of the matches in the document (the matches are listed by
  increasing start and do not overlap), and the \<^verbatim>\<open>shipment\<close> field of each record is the
  shipment id captured by its header match; a document without a header match gives the
  empty list of records.
\<close>

theorem parse_blocks_one_record_per_header:
  "\<exists>rs. parse_blocks t = Inr rs \<and>
     length rs = length (finditer HEADER_RE t) \<and>
     map (\<lambda>r. dict_get r ''shipment'') rs =
       map (\<lambda>m. map_option Str (mgroup m ''shipment'')) (finditer HEADER_RE t) \<and>
     list_all (\<lambda>m. mgroup m ''shipment'' \<noteq> None) (finditer HEADER_RE t) \<and>
     sorted_wrt (\<lambda>a b. m_start a < m_start b \<and> m_end a \<le> m_start b) (finditer HEADER_RE t) \<and>
     (finditer HEADER_RE t = [] \<longrightarrow> rs = [])"
proof -
  let ?ms = "finditer HEADER_RE t"
  from parse_blocks_props [of t] obtain rs where
    rs: "parse_blocks t = Inr rs" and len: "length rs = length ?ms"
    by blast
  have some: "mgroup m ''shipment'' \<noteq> None" if "m \<in> set ?ms" for m
  proof -
    from finditer_match [OF that] obtain p xs where "match_at HEADER_RE t p xs = Some m" by blast
    from header_groups [OF this] show ?thesis by auto
  qed
  have "dict_get (rs ! j) ''shipment'' = map_option Str (mgroup (?ms ! j) ''shipment'')"
    if "j < length rs" for j
  proof -
    from parse_blocks_record [OF rs that] obtain p xs where
      pb: "parse_block t ?ms j (?ms ! j) = Inr (rs ! j)" and
      m: "match_at HEADER_RE t p xs = Some (?ms ! j)"
      by blast
    from parse_block_props [OF m, of t ?ms j] pb
    have "dict_get (rs ! j) ''shipment'' = Some (of_opt (mgroup (?ms ! j) ''shipment''))" by auto
    moreover from header_groups [OF m] obtain sh where "mgroup (?ms ! j) ''shipment'' = Some sh"
      by blast
    ultimately show ?thesis by (simp add: of_opt_def)
  qed
  with len have "map (\<lambda>r. dict_get r ''shipment'') rs =
       map (\<lambda>m. map_option Str (mgroup m ''shipment'')) ?ms"
    by (simp add: list_eq_iff_nth_eq)
  moreover from some have "list_all (\<lambda>m. mgroup m ''shipment'' \<noteq> None) ?ms"
    by (simp add: list_all_iff)
  moreover note finditer_ordered [of HEADER_RE t]
  moreover from len have "?ms = [] \<longrightarrow> rs = []" by auto
  ultimately show ?thesis using rs len by blast
qed

theorem parse_blocks_one_record_per_header_witness:
  "finditer HEADER_RE (str '''') = [] \<and> parse_blocks (str '''') = Inr [] \<and>
   parse_blocks doc1 = Inr [rec1] \<and>
   map (\<lambda>m. (m_start m, mgroup m ''shipment'')) (finditer HEADER_RE doc1) = [(0, Some (str ''1001''))] \<and>
   dict_get rec1 ''shipment'' = Some (Str (str ''1001''))"
proof -
  have a: "finditer HEADER_RE (str '''') = []" by code_simp
  from parse_blocks_one_record_per_header [of "(str '''')"] a
  have "parse_blocks (str '''') = Inr []" by auto
  moreover have "dict_get rec1 ''shipment'' = Some (Str (str ''1001''))"
    by (simp add: rec1_def dict_get_def)
  ultimately show ?thesis using a parse_blocks_doc1 header_matches_doc1 by simp
qed

subsection \<open>C2: the fuel surcharge is forced to the other charges\<close>

text \<open>
  Claim C2. In every record that the engine produces, when \<^verbatim>\<open>other_charges\<close> is present
  then \<^verbatim>\<open>fuel_surcharge\<close> is the same string, at the top level and, when the nested
  \<^verbatim>\<open>charges\<close> dictionary exists, in that dictionary, whatever the charges table says.
\<close>

theorem fuel_surcharge_equals_other_charges:
  assumes "parse_blocks t = Inr rs" and "r \<in> set rs"
    and "dict_get r ''other_charges'' = Some v"
  shows "dict_get r ''fuel_surcharge'' = Some v \<and>
         (\<exists>s. v = Str s) \<and>
         (dict_get r ''charges'' = None \<or>
          (\<exists>c. dict_get r ''charges'' = Some (Dict c) \<and> dict_get c ''fuel_surcharge'' = Some v))"
proof -
  from assms(2) obtain j where j: "j < length rs" and r: "r = rs ! j"
    by (auto simp: in_set_conv_nth)
  let ?ms = "finditer HEADER_RE t"
  from parse_blocks_record [OF assms(1) j] obtain p xs where
    pb: "parse_block t ?ms j (?ms ! j) = Inr r" and
    m: "match_at HEADER_RE t p xs = Some (?ms ! j)"
    using r by blast
  from parse_block_props [OF m, of t ?ms j] pb obtain oc where
    "dict_get r ''other_charges'' = Some (Str oc)"
    "dict_get r ''fuel_surcharge'' = Some (Str oc)"
    "dict_get r ''charges'' = None \<or>
       (\<exists>c. dict_get r ''charges'' = Some (Dict c) \<and> dict_get c ''fuel_surcharge'' = Some (Str oc))"
    by auto
  with assms(3) show ?thesis by auto
qed

theorem fuel_surcharge_equals_other_charges_witness:
  "parse_blocks doc1 = Inr [rec1] \<and> rec1 \<in> set [rec1] \<and>
   dict_get rec1 ''other_charges'' = Some (Str (str ''210.00'')) \<and>
   dict_get rec1 ''fuel_surcharge'' = Some (Str (str ''210.00'')) \<and>
   dict_get rec1 ''charges'' = Some (Dict [(''transportation_charge'', Str (str ''17,853.00'')),
           (''discount'', Str (str ''-500.00'')), (''fuel_surcharge'', Str (str ''210.00''))])"
proof -
  have oc: "dict_get rec1 ''other_charges'' = Some (Str (str ''210.00''))"
    by (simp add: rec1_def dict_get_def)
  have mem: "rec1 \<in> set [rec1]" by simp
  from fuel_surcharge_equals_other_charges [OF parse_blocks_doc1 mem oc]
  have "dict_get rec1 ''fuel_surcharge'' = Some (Str (str ''210.00''))" by simp
  moreover have "dict_get rec1 ''charges'' = Some (Dict [(''transportation_charge'', Str (str ''17,853.00'')),
           (''discount'', Str (str ''-500.00'')), (''fuel_surcharge'', Str (str ''210.00''))])"
    by (simp add: rec1_def dict_get_def)
  ultimately show ?thesis using parse_blocks_doc1 oc by simp
qed

subsection \<open>C3: the order of the strategies\<close>




subsection \<open>C4: tokens next to a percent sign or a weight unit\<close>

text \<open>
  Claim C4. No resolved field is a token with a percent sign or \<^verbatim>\<open>kg\<close> within three
  characters of it in its line. The code breaks this on the example document: the only
  token of the line \<^verbatim>\<open>5.50 kg\<close> and the only token of the line \<^verbatim>\<open>Discount 10.5%\<close> are
  both excluded by the test of \<^verbatim>\<open>_numbers_in_segment\<close>, yet the record has
  \<^verbatim>\<open>transportation_charge\<close> 5.50 (from \<^verbatim>\<open>_line_starts_with_number\<close>, which only looks for a
  percent sign after the token) and \<^verbatim>\<open>discount\<close> 10.5 (from the pattern
  \<^verbatim>\<open>DISCOUNT_AFTER_RE\<close>, which has no exclusion test).
\<close>

theorem excluded_tokens_are_selected:
  "parse_blocks doc4 = Inr [rec4] \<and>
   dict_get rec4 ''transportation_charge'' = Some (Str (str ''5.50'')) \<and>
   dict_get rec4 ''discount'' = Some (Str (str ''10.5'')) \<and>
   map m_whole (finditer NUM_RE (str ''5.50 kg'')) = [str ''5.50''] \<and>
   list_all (excluded (str ''5.50 kg'')) (finditer NUM_RE (str ''5.50 kg'')) \<and>
   line_starts_with_number (str ''5.50 kg'') = Some (str ''5.50'') \<and>
   map m_whole (finditer NUM_RE (str ''Discount 10.5%'')) = [str ''10.5''] \<and>
   list_all (excluded (str ''Discount 10.5%'')) (finditer NUM_RE (str ''Discount 10.5%'')) \<and>
   map_option (\<lambda>m. mgroup m ''1'') (search DISCOUNT_AFTER_RE (str ''Discount 10.5%'')) = Some (Some (str ''10.5''))"
proof -
  have "dict_get rec4 ''transportation_charge'' = Some (Str (str ''5.50''))"
    "dict_get rec4 ''discount'' = Some (Str (str ''10.5''))"
    by (simp_all add: rec4_def dict_get_def)
  moreover have "map m_whole (finditer NUM_RE (str ''5.50 kg'')) = [str ''5.50'']"
    "list_all (excluded (str ''5.50 kg'')) (finditer NUM_RE (str ''5.50 kg''))"
    "line_starts_with_number (str ''5.50 kg'') = Some (str ''5.50'')"
    "map m_whole (finditer NUM_RE (str ''Discount 10.5%'')) = [str ''10.5'']"
    "list_all (excluded (str ''Discount 10.5%'')) (finditer NUM_RE (str ''Discount 10.5%''))"
    "map_option (\<lambda>m. mgroup m ''1'') (search DISCOUNT_AFTER_RE (str ''Discount 10.5%'')) = Some (Some (str ''10.5''))"
    by code_simp+
  ultimately show ?thesis using parse_blocks_doc4 by simp
qed

subsection \<open>C5: the same-line strategy\<close>

text \<open>
  Claim C5. On the first line that contains the label, the same-line strategy returns the
  last token not excluded before the label, else the first token not excluded after the
  label. The code does so when the label line and the label have no code point U+0130
  (\<open>same_line_strategy_plain\<close>), and on the example of the specification
  (\<open>amount_from_label_line_examples\<close>). It breaks the claim on a line with U+0130 before the
  label: \<^verbatim>\<open>_amount_from_label_line\<close> finds the label in the lowered line, where U+0130 has
  become two code points, and cuts the line itself at that index. In the line
  U+0130 \<^verbatim>\<open> Discount1.50\<close> the label is at index 2, no token stands before it and the
  token \<^verbatim>\<open>1.50\<close> stands after it; the code takes the index 3, is left with \<^verbatim>\<open>.50\<close> after
  the label and returns \<^verbatim>\<open>None\<close>. In the line U+0130 U+0130 \<^verbatim>\<open> Discount 1234.50\<close> the label
  is at index 3 and the token after it is \<^verbatim>\<open>1234.50\<close>; the code returns \<^verbatim>\<open>234.50\<close>.
\<close>

theorem same_line_strategy_misses_token:
  "splitlines line_dotted = [line_dotted] \<and>
   occurs_ci line_dotted (str ''Discount'') 2 \<and>
   list_all (\<lambda>k. \<not> occurs_ci line_dotted (str ''Discount'') k) [0..<2] \<and>
   numbers_in_segment (take 2 line_dotted) = [] \<and>
   drop (2 + 8) line_dotted = str ''1.50'' \<and>
   numbers_in_segment (drop (2 + 8) line_dotted) = [str ''1.50''] \<and>
   map (excluded line_dotted) (finditer NUM_RE line_dotted) = [False] \<and>
   amount_from_label_line line_dotted (str ''Discount'') = Inr None \<and>
   lower line_dotted = str ''i'' @ [U0307] @ str '' discount1.50'' \<and>
   str_find (lower line_dotted) (lower (str ''Discount'')) 0 = Some 3 \<and>
   drop (3 + 8) line_dotted = str ''.50'' \<and>
   splitlines line_dotted2 = [line_dotted2] \<and>
   occurs_ci line_dotted2 (str ''Discount'') 3 \<and>
   list_all (\<lambda>k. \<not> occurs_ci line_dotted2 (str ''Discount'') k) [0..<3] \<and>
   numbers_in_segment (take 3 line_dotted2) = [] \<and>
   numbers_in_segment (drop (3 + 8) line_dotted2) = [str ''1234.50''] \<and>
   amount_from_label_line line_dotted2 (str ''Discount'') = Inr (Some (str ''234.50''))"
  by code_simp

subsection \<open>C6: the windowed strategy\<close>

text \<open>
  Claim C6 as stated fails in two ways. The resolver of \<^verbatim>\<open>parse_blocks\<close> never uses the
  windowed strategy: on the example document, with no number on the label line and the
  candidates 75.00, 50.00 and -999.00 in the window of the label, the field is 50.00. And
  \<^verbatim>\<open>_find_amount_near_label\<close> itself compares the candidates after \<^verbatim>\<open>abs\<close> has rounded them
  to 28 significant digits: of two candidates of 30 digits that differ in the last one it
  returns the first, which is the smaller.
\<close>

theorem windowed_largest_counterexample:
  "parse_blocks doc3 = Inr [rec3] \<and>
   dict_get rec3 ''transportation_charge'' = Some (Str (str ''50.00'')) \<and>
   window_tokens (splitlines charges3) 3 3 = [str ''75.00'', str ''50.00'', str ''-999.00''] \<and>
   numbers_in_segment (splitlines charges3 ! 3) = [] \<and>
   window_tokens (splitlines near_long) 0 3 =
     [str ''10000000000000000000000000000.1'', str ''10000000000000000000000000000.4''] \<and>
   to_decimal (str ''10000000000000000000000000000.1'') =
     Inr (Decimal False 100000000000000000000000000001 (- 1)) \<and>
   to_decimal (str ''10000000000000000000000000000.4'') =
     Inr (Decimal False 100000000000000000000000000004 (- 1)) \<and>
   find_amount_near_label near_long (str ''Discount'') 3 = Inr (Some (str ''10000000000000000000000000000.1''))"
proof -
  have "dict_get rec3 ''transportation_charge'' = Some (Str (str ''50.00''))"
    by (simp add: rec3_def dict_get_def)
  moreover have "window_tokens (splitlines charges3) 3 3 = [str ''75.00'', str ''50.00'', str ''-999.00'']"
    "numbers_in_segment (splitlines charges3 ! 3) = []"
    "window_tokens (splitlines near_long) 0 3 =
       [str ''10000000000000000000000000000.1'', str ''10000000000000000000000000000.4'']"
    "to_decimal (str ''10000000000000000000000000000.1'') =
       Inr (Decimal False 100000000000000000000000000001 (- 1))"
    "to_decimal (str ''10000000000000000000000000000.4'') =
       Inr (Decimal False 100000000000000000000000000004 (- 1))"
    "find_amount_near_label near_long (str ''Discount'') 3 = Inr (Some (str ''10000000000000000000000000000.1''))"
    by code_simp+
  ultimately show ?thesis using parse_blocks_doc3 by simp
qed

text \<open>
  Claim C6, amended. \<^verbatim>\<open>_find_amount_near_label\<close>, which the resolver of \<^verbatim>\<open>parse_blocks\<close>
  does not call, works on the first line that contains the label: its candidates are the
  tokens not excluded on that line, then on up to 3 following lines, then on up to 3
  preceding lines. With no candidate it returns \<^verbatim>\<open>None\<close>. When every candidate has at most
  28 significant digits, it returns a candidate whose absolute value is the largest; the
  candidates 75.00, -999.00 and 50.00 around a label line without a number give -999.00.
\<close>

theorem windowed_near_largest_abs:
  assumes "idx < length (splitlines text)"
    and "str_in (lower label) (lower (splitlines text ! idx))"
    and "\<forall>i<idx. \<not> str_in (lower label) (lower (splitlines text ! i))"
    and "list_all short_token (window_tokens (splitlines text) idx 3)"
  shows "(window_tokens (splitlines text) idx 3 = [] \<longrightarrow>
           find_amount_near_label text label 3 = Inr None) \<and>
         (window_tokens (splitlines text) idx 3 \<noteq> [] \<longrightarrow>
           (\<exists>best \<in> set (window_tokens (splitlines text) idx 3).
              find_amount_near_label text label 3 = Inr (Some best) \<and>
              (\<forall>c \<in> set (window_tokens (splitlines text) idx 3).
                 \<bar>token_val c\<bar> \<le> \<bar>token_val best\<bar>)))"
proof -
  let ?lines = "splitlines text"
  let ?cands = "window_tokens ?lines idx 3"
  from find_amount_near_label_loop_first [OF assms(1,2,3), of ?lines 3 0]
    near_candidates_eq [OF assms(1), of 3]
  have eq: "find_amount_near_label text label 3 =
      (if ?cands = [] then Inr None else res_bind (max_abs ?cands) (\<lambda>best. Inr (Some best)))"
    by (simp add: find_amount_near_label_def)
  show ?thesis
  proof (cases "?cands = []")
    case True
    with eq show ?thesis by simp
  next
    case False
    from max_abs_short [OF assms(4) False] obtain best where
      "best \<in> set ?cands" "max_abs ?cands = Inr best"
      "\<forall>c \<in> set ?cands. \<bar>token_val c\<bar> \<le> \<bar>token_val best\<bar>"
      by blast
    with eq False show ?thesis by auto
  qed
qed

theorem windowed_near_largest_abs_witness:
  "window_tokens (splitlines near3) 2 3 = [str ''75.00'', str ''-999.00'', str ''50.00''] \<and>
   find_amount_near_label near3 (str ''Transportation Charge'') 3 = Inr (Some (str ''-999.00'')) \<and>
   list_all (\<lambda>c. \<bar>token_val c\<bar> \<le> \<bar>token_val (str ''-999.00'')\<bar>) [str ''75.00'', str ''-999.00'', str ''50.00'']"
proof -
  let ?L = "(str ''Transportation Charge'')"
  have i: "2 < length (splitlines near3)" by code_simp
  have l: "str_in (lower ?L) (lower (splitlines near3 ! 2))" by code_simp
  have "list_all (\<lambda>i. \<not> str_in (lower ?L) (lower (splitlines near3 ! i))) [0..<2]"
    by code_simp
  then have f: "\<forall>i<2. \<not> str_in (lower ?L) (lower (splitlines near3 ! i))"
    by (simp add: list_all_iff)
  have w: "window_tokens (splitlines near3) 2 3 = [str ''75.00'', str ''-999.00'', str ''50.00'']"
    by code_simp
  have s: "list_all short_token (window_tokens (splitlines near3) 2 3)" by code_simp
  have r: "find_amount_near_label near3 ?L 3 = Inr (Some (str ''-999.00''))" by code_simp
  from windowed_near_largest_abs [OF i l f s] w r
  have "\<forall>c \<in> set [str ''75.00'', str ''-999.00'', str ''50.00'']. \<bar>token_val c\<bar> \<le> \<bar>token_val (str ''-999.00'')\<bar>"
    by auto
  then have "list_all (\<lambda>c. \<bar>token_val c\<bar> \<le> \<bar>token_val (str ''-999.00'')\<bar>) [str ''75.00'', str ''-999.00'', str ''50.00'']"
    by (simp only: list_all_iff)
  with w r show ?thesis by simp
qed

subsection \<open>C7: the charges section\<close>

text \<open>
  Claim C7. The isolator returns the block from the first occurrence of \<^verbatim>\<open>Charges\<close>, found
  without case, up to the first end marker after it, or to the end of the block, and the
  block unchanged when \<^verbatim>\<open>Charges\<close> does not occur. The code does so on every block without
  the code point U+0130 (\<open>slice_charges_section_plain\<close>, with the end markers found without
  case, also inside a longer word), and on the example of the specification
  (\<open>slice_charges_section_examples\<close>). It breaks the claim on a block with U+0130 before the
  table: \<^verbatim>\<open>_slice_charges_section\<close> finds \<^verbatim>\<open>charges\<close> and the end marker in the lowered
  block, where U+0130 has become two code points, and cuts the block itself at these
  indices. In the block U+0130 \<^verbatim>\<open> Charges 1.00\<close>, which has no end marker, the word is at
  index 2 and the section of the claim is \<^verbatim>\<open>Charges 1.00\<close>; the code returns
  \<^verbatim>\<open>harges 1.00\<close>. In the block that starts with the place name U+0130 \<^verbatim>\<open>stanbul\<close> the
  word is at index 9 and the marker \<^verbatim>\<open>Signed\<close> at index 46; the code returns the block
  from index 10 up to index 47, without the \<^verbatim>\<open>C\<close> and with the \<^verbatim>\<open>S\<close> of the marker.
\<close>

theorem slice_charges_section_starts_late:
  "occurs_ci block_dotted (str ''Charges'') 2 \<and>
   list_all (\<lambda>k. \<not> occurs_ci block_dotted (str ''Charges'') k) [0..<2] \<and>
   list_all (\<lambda>k. \<not> ci_marker_at block_dotted k) [0..<Suc (length block_dotted)] \<and>
   drop 2 block_dotted = str ''Charges 1.00'' \<and>
   slice_charges_section block_dotted = Inr (str ''harges 1.00'') \<and>
   lower block_dotted = str ''i'' @ [U0307] @ str '' charges 1.00'' \<and>
   str_find (lower block_dotted) (str ''charges'') 0 = Some 3 \<and>
   occurs_ci block_istanbul (str ''Charges'') 9 \<and>
   list_all (\<lambda>k. \<not> occurs_ci block_istanbul (str ''Charges'') k) [0..<9] \<and>
   ci_marker_at block_istanbul 46 \<and>
   list_all (\<lambda>k. \<not> ci_marker_at block_istanbul k) [9 + 7..<46] \<and>
   take (46 - 9) (drop 9 block_istanbul) =
     str (''Charges'' @ [CHR 0x0A] @ ''Transportation Charge 100.00'' @ [CHR 0x0A]) \<and>
   slice_charges_section block_istanbul =
     Inr (str (''harges'' @ [CHR 0x0A] @ ''Transportation Charge 100.00'' @ [CHR 0x0A] @ ''S'')) \<and>
   str_find (lower block_istanbul) (str ''charges'') 0 = Some 10 \<and>
   end_candidates (lower block_istanbul) 10 = [47]"
  by code_simp

subsection \<open>C8: the engine never raises\<close>



subsection \<open>C9: lookup by reference\<close>

text \<open>The lookup of \<^verbatim>\<open>app.py\<close> answers as the specification says: an error object when no
  record has the reference, the record itself when exactly one has it, and the list of all
  of them otherwise.\<close>

lemma fedex_by_reference_cases:
  assumes "parse_blocks text = Inr blocks"
  shows "fedex_by_reference reference text =
     (let match = filter (\<lambda>b. dict_get b ''reference'' = Some (Str reference)) blocks in
      case match of
        [] \<Rightarrow> Inr (RObject [(''error'', Str (str ''reference not found'')),
                            (''reference'', Str reference)])
      | [b] \<Rightarrow> Inr (RObject b)
      | _ \<Rightarrow> Inr (RList match))"
  using assms
  by (auto simp: fedex_by_reference_def Let_def py_index_def split: list.splits)

lemma main_ref_cases:
  assumes "parse_blocks text = Inr blocks"
  shows "main_ref text ref =
     (let selection = filter (\<lambda>b. dict_get b ''reference'' = Some (Str ref)) blocks in
      case selection of
        [b] \<Rightarrow> Inr (RObject b, 0)
      | _ \<Rightarrow> Inr (RList selection, 0))"
  using assms
  by (auto simp: main_ref_def Let_def py_index_def split: list.splits)

text \<open>
  Claim C9. The lookup by reference gives an explicit not-found error when no record has
  the reference, the single record when one has it, and the list of all matching records
  when several have it. \<^verbatim>\<open>fedex_by_reference\<close> does so; the \<^verbatim>\<open>--ref\<close> branch of \<^verbatim>\<open>main\<close>
  does not: for a reference that no record has it prints the empty list and exits with
  status 0, here on the example document and the reference \<^verbatim>\<open>NOPE\<close>.
\<close>

theorem main_ref_not_found_is_empty_success:
  "main_ref doc1 (str ''NOPE'') = Inr (RList [], 0) \<and>
   fedex_by_reference (str ''NOPE'') doc1 =
     Inr (RObject [(''error'', Str (str ''reference not found'')), (''reference'', Str (str ''NOPE''))]) \<and>
   main_ref doc1 (str ''REF123'') = Inr (RObject rec1, 0) \<and>
   fedex_by_reference (str ''REF123'') doc1 = Inr (RObject rec1)"
proof -
  have no: "filter (\<lambda>b. dict_get b ''reference'' = Some (Str (str ''NOPE''))) [rec1] = []"
    by (simp add: rec1_def dict_get_def str_def)
  have yes: "filter (\<lambda>b. dict_get b ''reference'' = Some (Str (str ''REF123''))) [rec1] = [rec1]"
    by (simp add: rec1_def dict_get_def str_def)
  from no yes show ?thesis
    by (simp add: main_ref_cases [OF parse_blocks_doc1]
        fedex_by_reference_cases [OF parse_blocks_doc1])
qed

subsection \<open>C10: the fuel surcharge is never omitted\<close>

text \<open>
  Claim C10. Every record has the key \<^verbatim>\<open>fuel_surcharge\<close>, equal to the
  \<^verbatim>\<open>other_charges\<close> captured by the header match, which is never empty: the capture group
  is mandatory in the header pattern and matches at least three characters, so the override
  applies to every block, also where no charges table is found.
\<close>

theorem fuel_surcharge_always_present:
  assumes "parse_blocks t = Inr rs" and "j < length rs"
  shows "\<exists>oc. oc \<noteq> [] \<and>
           mgroup (finditer HEADER_RE t ! j) ''other_charges'' = Some oc \<and>
           dict_get (rs ! j) ''other_charges'' = Some (Str oc) \<and>
           dict_get (rs ! j) ''fuel_surcharge'' = Some (Str oc)"
proof -
  let ?ms = "finditer HEADER_RE t"
  from parse_blocks_record [OF assms] obtain p xs where
    pb: "parse_block t ?ms j (?ms ! j) = Inr (rs ! j)" and
    m: "match_at HEADER_RE t p xs = Some (?ms ! j)"
    by blast
  from parse_block_props [OF m, of t ?ms j] pb show ?thesis by auto
qed

theorem fuel_surcharge_always_present_witness:
  "parse_blocks doc2 = Inr [rec2] \<and> (0::nat) < length [rec2] \<and>
   dict_get rec2 ''transportation_charge'' = None \<and> dict_get rec2 ''charges'' = None \<and>
   dict_get ([rec2] ! 0) ''fuel_surcharge'' = Some (Str (str ''3.50''))"
proof -
  have len: "(0::nat) < length [rec2]" by simp
  from fuel_surcharge_always_present [OF parse_blocks_doc2 len]
  have "dict_get ([rec2] ! 0) ''fuel_surcharge'' = dict_get ([rec2] ! 0) ''other_charges''"
    by auto
  then show ?thesis using parse_blocks_doc2
    by (simp add: rec2_def dict_get_def)
qed

end
